theory Spec2Isabelle
  imports Main "HOL-Library.Sublist" "HOL-Library.AList"
begin

section \<open>Text\<close>

text \<open>
  A Python \<open>str\<close> is a sequence of Unicode code points, and \<open>len\<close>, indexing, \<open>replace\<close>
  and the \<open>re\<close> module all count code points. The source depends on that: it mentions the
  full-width characters U+FF03, U+FF08, U+FF09 and U+FF01 and computes \<open>'#' * len(hashes)\<close>.
  A code point is therefore an integer and a text a list of them. ASCII literals of
  the source are written \<open>asc ''...''\<close>.
\<close>

type_synonym uchar = int
type_synonym ustr = "uchar list"

definition asc :: "string \<Rightarrow> ustr" where
  "asc = map of_char"

abbreviation nl :: uchar where "nl \<equiv> 10"
abbreviation fw_hash :: uchar where "fw_hash \<equiv> 65283"
abbreviation fw_excl :: uchar where "fw_excl \<equiv> 65281"
abbreviation fw_lparen :: uchar where "fw_lparen \<equiv> 65288"
abbreviation fw_rparen :: uchar where "fw_rparen \<equiv> 65289"

text \<open>
  \<open>str.lower()\<close>. Exact on ASCII, on U+0130 (which lower-cases to two code points) and on
  U+212A; every other code point is returned unchanged. The source applies \<open>lower()\<close> only to
  placeholders and to matches of placeholder patterns, whose characters lie in that range
  whenever the registry was built by \<open>protect_special_elements\<close>.
\<close>

definition lower_char :: "uchar \<Rightarrow> ustr" where
  "lower_char c =
     (if 65 \<le> c \<and> c \<le> 90 then [c + 32]
      else if c = 304 then [105, 775]
      else if c = 8490 then [107]
      else [c])"

definition lower :: "ustr \<Rightarrow> ustr" where
  "lower s = concat (map lower_char s)"

text \<open>\<open>old in s\<close> for strings.\<close>

fun contains :: "ustr \<Rightarrow> ustr \<Rightarrow> bool" where
  "contains old [] = (old = [])"
| "contains old (c # t) = (prefix old (c # t) \<or> contains old t)"

text \<open>
  \<open>s.replace(old, new)\<close>: every non-overlapping occurrence, leftmost first. For the empty
  \<open>old\<close> Python inserts \<open>new\<close> before every character and at the end.
\<close>

function str_replace :: "ustr \<Rightarrow> ustr \<Rightarrow> ustr \<Rightarrow> ustr" where
  "str_replace old new s =
     (if old = [] then new @ concat (map (\<lambda>c. c # new) s)
      else if prefix old s then new @ str_replace old new (drop (length old) s)
      else (case s of [] \<Rightarrow> [] | c # t \<Rightarrow> c # str_replace old new t))"
  by pat_completeness auto
termination
  by (relation "measure (\<lambda>(old, new, s). length s)") (auto simp: prefix_def)

declare str_replace.simps [simp del]

text \<open>\<open>s.replace(old, new, 1)\<close>: the first occurrence only.\<close>

fun str_replace1 :: "ustr \<Rightarrow> ustr \<Rightarrow> ustr \<Rightarrow> ustr" where
  "str_replace1 old new [] = (if old = [] then new else [])"
| "str_replace1 old new (c # t) =
     (if prefix old (c # t) then new @ drop (length old) (c # t)
      else c # str_replace1 old new t)"

text \<open>\<open>str(n)\<close> for a non-negative integer, and \<open>int(s)\<close> for a string of ASCII digits.\<close>

function str_of_nat :: "nat \<Rightarrow> ustr" where
  "str_of_nat n = (if n < 10 then [48 + int n] else str_of_nat (n div 10) @ [48 + int (n mod 10)])"
  by pat_completeness auto
termination
  by (relation "measure id") auto

declare str_of_nat.simps [simp del]

definition int_of_str :: "ustr \<Rightarrow> nat" where
  "int_of_str s = foldl (\<lambda>a c. 10 * a + nat (c - 48)) 0 s"

text \<open>\<open>s.split('_')\<close> and \<open>s.strip()\<close>.\<close>

fun split_on :: "uchar \<Rightarrow> ustr \<Rightarrow> ustr list" where
  "split_on d [] = [[]]"
| "split_on d (c # t) =
     (if c = d then [] # split_on d t
      else (case split_on d t of [] \<Rightarrow> [[c]] | x # xs \<Rightarrow> (c # x) # xs))"

definition is_space :: "uchar \<Rightarrow> bool" where
  "is_space c \<longleftrightarrow>
     (9 \<le> c \<and> c \<le> 13) \<or> (28 \<le> c \<and> c \<le> 32) \<or> c = 133 \<or> c = 160 \<or> c = 5760 \<or>
     (8192 \<le> c \<and> c \<le> 8202) \<or> c = 8232 \<or> c = 8233 \<or> c = 8239 \<or> c = 8287 \<or> c = 12288"

definition strip :: "ustr \<Rightarrow> ustr" where
  "strip s = rev (dropWhile is_space (rev (dropWhile is_space s)))"

section \<open>Regular expressions\<close>

text \<open>
  The patterns of the source are kept as syntax trees and run by a backtracking matcher that
  lists the ways a pattern can match at a position in the order in which Python's engine
  tries them; the first one is the match Python reports. The digit class is the ASCII digits (Python
  also accepts the decimal digits of other scripts); the space class is Python's Unicode
  white space.
  No pattern of the source that is compiled with \<open>re.IGNORECASE\<close> contains a bracketed
  class other than the digit class, so only literals are case-folded.
\<close>

datatype citem = Ch uchar | Rng uchar uchar | Digit | Space | NotSpace

fun citem_has :: "citem \<Rightarrow> uchar \<Rightarrow> bool" where
  "citem_has (Ch c) d = (d = c)"
| "citem_has (Rng lo hi) d = (lo \<le> d \<and> d \<le> hi)"
| "citem_has Digit d = (48 \<le> d \<and> d \<le> 57)"
| "citem_has Space d = is_space d"
| "citem_has NotSpace d = (\<not> is_space d)"

definition in_class :: "citem list \<Rightarrow> uchar \<Rightarrow> bool" where
  "in_class cs d = list_ex (\<lambda>i. citem_has i d) cs"

text \<open>
  A literal under \<open>re.IGNORECASE\<close>: the engine compares the simple lower-case forms, and
  treats \<open>i\<close> and U+0131, \<open>s\<close> and U+017F as equal. U+0130 and U+212A have the simple
  lower-case forms \<open>i\<close> and \<open>k\<close>.
\<close>

definition simple_lower :: "uchar \<Rightarrow> uchar" where
  "simple_lower c =
     (if 65 \<le> c \<and> c \<le> 90 then c + 32 else if c = 304 then 105 else if c = 8490 then 107 else c)"

definition lit_eq :: "bool \<Rightarrow> uchar \<Rightarrow> uchar \<Rightarrow> bool" where
  "lit_eq ic c d =
     (if ic then
        (let lc = simple_lower c; ld = simple_lower d
         in ld = lc \<or> (lc = 105 \<and> ld = 305) \<or> (lc = 115 \<and> ld = 383))
      else d = c)"

datatype re =
    Eps
  | Lit uchar
  | Dot
  | DotAll
  | In "citem list"
  | NotIn "citem list"
  | Seq re re
  | Alt re re
  | Star re
  | StarLazy re
  | Grp nat re
  | NotAhead re
  | Bol
  | Eol

text \<open>\<open>r+\<close> and \<open>r+?\<close>, and a literal string.\<close>

definition Plus :: "re \<Rightarrow> re" where
  "Plus r = Seq r (Star r)"

definition PlusLazy :: "re \<Rightarrow> re" where
  "PlusLazy r = Seq r (StarLazy r)"

fun lits :: "ustr \<Rightarrow> re" where
  "lits [] = Eps"
| "lits (c # t) = Seq (Lit c) (lits t)"

fun seqs :: "re list \<Rightarrow> re" where
  "seqs [] = Eps"
| "seqs (r # rs) = Seq r (seqs rs)"

text \<open>
  A matcher state: the character before the position (for \<open>^\<close>), the text from the position
  on, and the groups captured so far (the latest binding of a group first). \<open>Bol\<close> and \<open>Eol\<close>
  are \<open>^\<close> and \<open>$\<close> under \<open>re.MULTILINE\<close>, the only mode in which the source uses them.
  An iteration of a star that consumes nothing is not repeated; no starred sub-pattern of
  the source can match the empty string.
\<close>

type_synonym caps = "(nat \<times> ustr) list"
type_synonym mstate = "uchar option \<times> ustr \<times> caps"

fun step1 :: "(uchar \<Rightarrow> bool) \<Rightarrow> mstate \<Rightarrow> mstate list" where
  "step1 P (p, [], g) = []"
| "step1 P (p, d # t, g) = (if P d then [(Some d, t, g)] else [])"

function ms :: "bool \<Rightarrow> re \<Rightarrow> mstate \<Rightarrow> mstate list" where
  "ms ic Eps st = [st]"
| "ms ic (Lit c) st = step1 (lit_eq ic c) st"
| "ms ic Dot st = step1 (\<lambda>d. d \<noteq> nl) st"
| "ms ic DotAll st = step1 (\<lambda>d. True) st"
| "ms ic (In cs) st = step1 (in_class cs) st"
| "ms ic (NotIn cs) st = step1 (\<lambda>d. \<not> in_class cs d) st"
| "ms ic (Seq a b) st = concat (map (ms ic b) (ms ic a st))"
| "ms ic (Alt a b) st = ms ic a st @ ms ic b st"
| "ms ic (Star r) (p, s, g) =
     concat (map (ms ic (Star r))
               (filter (\<lambda>(p', s', g'). length s' < length s) (ms ic r (p, s, g))))
     @ [(p, s, g)]"
| "ms ic (StarLazy r) (p, s, g) =
     (p, s, g) #
     concat (map (ms ic (StarLazy r))
               (filter (\<lambda>(p', s', g'). length s' < length s) (ms ic r (p, s, g))))"
| "ms ic (Grp n r) (p, s, g) =
     map (\<lambda>(p', s', g'). (p', s', (n, take (length s - length s') s) # g')) (ms ic r (p, s, g))"
| "ms ic (NotAhead r) st = (if ms ic r st = [] then [st] else [])"
| "ms ic Bol (p, s, g) = (if p = None \<or> p = Some nl then [(p, s, g)] else [])"
| "ms ic Eol (p, s, g) = (case s of [] \<Rightarrow> [(p, s, g)] | d # t \<Rightarrow> if d = nl then [(p, s, g)] else [])"
  by pat_completeness auto
termination
  by (relation "(\<lambda>(ic, r, p, s, g). size r) <*mlex*> measure (\<lambda>(ic, r, p, s, g). length s)")
     (auto simp: mlex_prod_def)



text \<open>The star equations unfold for ever under the simplifier; they are applied by hand.\<close>

declare ms.simps(9,10) [simp del]

lemma step1_suffix:
  "(p', s', g') \<in> set (step1 P (p, s, g)) \<Longrightarrow> suffix s' s"
  by (cases s) (auto simp: suffix_Cons split: if_splits)

lemma ms_suffix:
  "(p', s', g') \<in> set (ms ic r st) \<Longrightarrow> suffix s' (fst (snd st))"
proof (induction ic r st arbitrary: p' s' g' rule: ms.induct)
  case (7 ic a b st)
  from 7(3) obtain x where x: "x \<in> set (ms ic a st)" "(p', s', g') \<in> set (ms ic b x)"
    by auto
  obtain q t h where xe: "x = (q, t, h)" by (cases x)
  from 7(1)[of q t h] x xe have "suffix t (fst (snd st))" by simp
  moreover from 7(2)[OF x(1) x(2)] xe have "suffix s' t" by simp
  ultimately show ?case by (rule suffix_order.trans[rotated])
next
  case (9 ic r p s g)
  show ?case
  proof (cases "(p', s', g') = (p, s, g)")
    case True then show ?thesis by simp
  next
    case False
    with 9(3) obtain x where x: "x \<in> set (filter (\<lambda>(p', s', g'). length s' < length s) (ms ic r (p, s, g)))"
       "(p', s', g') \<in> set (ms ic (Star r) x)"
      unfolding ms.simps(9)[of ic r p s g] by auto
    obtain q t h where xe: "x = (q, t, h)" by (cases x)
    from x(1) xe have "(q, t, h) \<in> set (ms ic r (p, s, g))" by simp
    from 9(1)[OF this] have "suffix t s" by simp
    moreover from 9(2)[OF x(1) x(2)] xe have "suffix s' t" by simp
    ultimately show ?thesis by (simp add: suffix_order.trans[rotated])
  qed
next
  case (10 ic r p s g)
  show ?case
  proof (cases "(p', s', g') = (p, s, g)")
    case True then show ?thesis by simp
  next
    case False
    with 10(3) obtain x where x: "x \<in> set (filter (\<lambda>(p', s', g'). length s' < length s) (ms ic r (p, s, g)))"
       "(p', s', g') \<in> set (ms ic (StarLazy r) x)"
      unfolding ms.simps(10)[of ic r p s g] by auto
    obtain q t h where xe: "x = (q, t, h)" by (cases x)
    from x(1) xe have "(q, t, h) \<in> set (ms ic r (p, s, g))" by simp
    from 10(1)[OF this] have "suffix t s" by simp
    moreover from 10(2)[OF x(1) x(2)] xe have "suffix s' t" by simp
    ultimately show ?thesis by (simp add: suffix_order.trans[rotated])
  qed
next
  case (2 ic c st) then show ?case by (cases st) (auto dest: step1_suffix)
next
  case (3 ic st) then show ?case by (cases st) (auto dest: step1_suffix)
next
  case (4 ic st) then show ?case by (cases st) (auto dest: step1_suffix)
next
  case (5 ic cs st) then show ?case by (cases st) (auto dest: step1_suffix)
next
  case (6 ic cs st) then show ?case by (cases st) (auto dest: step1_suffix)
next
  case (8 ic a b st) then show ?case by auto
next
  case (11 ic n r p s g)
  from 11(2) obtain q h where "(q, s', h) \<in> set (ms ic r (p, s, g))"
    by auto
  from 11(1)[OF this] show ?case by simp
next
  case (12 ic r st) then show ?case by (auto split: if_splits)
next
  case (13 ic p s g) then show ?case by (auto split: if_splits)
next
  case (14 ic p s g) then show ?case by (auto split: if_splits list.splits)
qed auto

fun re_search :: "bool \<Rightarrow> re \<Rightarrow> uchar option \<Rightarrow> ustr
    \<Rightarrow> (ustr \<times> ustr \<times> caps \<times> uchar option \<times> ustr) option" where
  "re_search ic r p [] =
     (case ms ic r (p, [], []) of
        (p', s', g) # _ \<Rightarrow> Some ([], [], g, p', s')
      | [] \<Rightarrow> None)"
| "re_search ic r p (c # t) =
     (case ms ic r (p, c # t, []) of
        (p', s', g) # _ \<Rightarrow> Some ([], take (length (c # t) - length s') (c # t), g, p', s')
      | [] \<Rightarrow> map_option (\<lambda>(b, m, g, p', a). (c # b, m, g, p', a)) (re_search ic r (Some c) t))"

definition re_match :: "bool \<Rightarrow> re \<Rightarrow> ustr \<Rightarrow> (ustr \<times> caps) option" where
  "re_match ic r s =
     (case ms ic r (None, s, []) of
        [] \<Rightarrow> None
      | (p', s', g) # _ \<Rightarrow> Some (take (length s - length s') s, g))"

definition re_found :: "bool \<Rightarrow> re \<Rightarrow> ustr \<Rightarrow> bool" where
  "re_found ic r s = (re_search ic r None s \<noteq> None)"

lemma ms_hd_split:
  assumes "ms ic r (p, s, g) = (p', s', g') # rest"
  shows "s = take (length s - length s') s @ s'"
proof -
  from assms have "(p', s', g') \<in> set (ms ic r (p, s, g))" by simp
  then have "suffix s' s" using ms_suffix by fastforce
  then show ?thesis by (auto simp: suffix_def)
qed

lemma re_search_split:
  "re_search ic r p s = Some (b, m, g, p', a) \<Longrightarrow> s = b @ m @ a"
proof (induction s arbitrary: p b)
  case Nil
  then show ?case
    by (auto split: list.splits dest: ms_hd_split)
next
  case (Cons c t)
  show ?case
  proof (cases "ms ic r (p, c # t, [])")
    case Nil
    with Cons.prems obtain b' where b: "b = c # b'" "re_search ic r (Some c) t = Some (b', m, g, p', a)"
      by auto
    with Cons.IH show ?thesis by auto
  next
    case (Cons x xs)
    obtain q s' h where x: "x = (q, s', h)" by (cases x)
    from ms_hd_split[OF Cons[unfolded x]] Cons x Cons.prems show ?thesis by auto
  qed
qed

text \<open>
  The scan behind \<open>re.findall\<close>, \<open>re.finditer\<close>, \<open>re.sub\<close> and \<open>re.split\<close>: the successive
  non-overlapping matches, each with the text skipped before it, and the text left after the
  last one. After an empty match the scan moves one character on; no pattern of the source
  can match the empty string.
\<close>

fun shift_chunk :: "uchar \<Rightarrow> (ustr \<times> ustr \<times> caps) list \<times> ustr \<Rightarrow> (ustr \<times> ustr \<times> caps) list \<times> ustr" where
  "shift_chunk c ([], rst) = ([], c # rst)"
| "shift_chunk c ((b, m, g) # ch, rst) = ((c # b, m, g) # ch, rst)"

function re_scan :: "bool \<Rightarrow> re \<Rightarrow> uchar option \<Rightarrow> ustr \<Rightarrow> (ustr \<times> ustr \<times> caps) list \<times> ustr" where
  "re_scan ic r p s =
     (case re_search ic r p s of
        None \<Rightarrow> ([], s)
      | Some (b, m, g, p', a) \<Rightarrow>
          (let (ch, rst) =
             (if m = [] then (case a of [] \<Rightarrow> ([], []) | c # t \<Rightarrow> shift_chunk c (re_scan ic r (Some c) t))
              else re_scan ic r p' a)
           in ((b, m, g) # ch, rst)))"
  by pat_completeness auto
termination
  by (relation "measure (\<lambda>(ic, r, p, s). length s)") (auto dest: re_search_split)

declare re_scan.simps [simp del]

type_synonym rmatch = "ustr \<times> caps"

definition re_finditer :: "bool \<Rightarrow> re \<Rightarrow> ustr \<Rightarrow> rmatch list" where
  "re_finditer ic r s = map (\<lambda>(b, m, g). (m, g)) (fst (re_scan ic r None s))"

text \<open>\<open>m.group(n)\<close>; every group of the source's patterns takes part in every match.\<close>

definition group :: "nat \<Rightarrow> rmatch \<Rightarrow> ustr" where
  "group n m = (if n = 0 then fst m else (case map_of (snd m) n of None \<Rightarrow> [] | Some x \<Rightarrow> x))"

text \<open>
  \<open>re.findall\<close> returns the whole matches of a pattern without groups, the group of a
  pattern with one group, and the tuple of groups of a pattern with several.
\<close>

definition findall0 :: "bool \<Rightarrow> re \<Rightarrow> ustr \<Rightarrow> ustr list" where
  "findall0 ic r s = map (group 0) (re_finditer ic r s)"

definition findall1 :: "bool \<Rightarrow> re \<Rightarrow> ustr \<Rightarrow> ustr list" where
  "findall1 ic r s = map (group 1) (re_finditer ic r s)"

definition groups2 :: "rmatch \<Rightarrow> ustr \<times> ustr" where
  "groups2 m = (group 1 m, group 2 m)"

definition findall2 :: "bool \<Rightarrow> re \<Rightarrow> ustr \<Rightarrow> (ustr \<times> ustr) list" where
  "findall2 ic r s = map groups2 (re_finditer ic r s)"

fun sub_chunks :: "(rmatch \<Rightarrow> ustr) \<Rightarrow> (ustr \<times> ustr \<times> caps) list \<Rightarrow> ustr" where
  "sub_chunks f [] = []"
| "sub_chunks f ((b, m, g) # ch) = b @ f (m, g) @ sub_chunks f ch"

definition re_sub :: "bool \<Rightarrow> re \<Rightarrow> (rmatch \<Rightarrow> ustr) \<Rightarrow> ustr \<Rightarrow> ustr" where
  "re_sub ic r f s = (case re_scan ic r None s of (ch, rst) \<Rightarrow> sub_chunks f ch @ rst)"

definition re_split :: "re \<Rightarrow> ustr \<Rightarrow> ustr list" where
  "re_split r s = (case re_scan False r None s of (ch, rst) \<Rightarrow> map fst ch @ [rst])"


section \<open>Placeholders and the registry\<close>

text \<open>
  \<open>special_elements\<close> is a dict from placeholder to original text, iterated in insertion
  order; assigning to a key that is present keeps its place. One further key,
  \<open>__ALL_IMAGE_PATHS__\<close>, holds the list of image tuples \<open>(has_title, title, url,
  placeholder)\<close> instead of a string. Every loop of the source over the dict skips that key
  (explicitly in \<open>restore_special_elements\<close>; in \<open>restore_formulas\<close> because it has no
  digits and does not contain \<open>MATH\<close>), and a string never equals a list, so the registry is
  the association list of the string entries together with the image list, if the key is set.
\<close>

type_synonym image = "bool \<times> ustr \<times> ustr \<times> ustr"

record registry =
  elems :: "(ustr \<times> ustr) list"
  image_paths :: "image list option"

definition empty_registry :: registry where
  "empty_registry = \<lparr>elems = [], image_paths = None\<rparr>"

definition bs :: ustr where
  "bs = [92]"

definition placeholder :: "string \<Rightarrow> nat \<Rightarrow> ustr" where
  "placeholder kind n = asc ''__'' @ asc kind @ asc ''_'' @ str_of_nat n @ asc ''__''"

definition startswith :: "ustr \<Rightarrow> ustr \<Rightarrow> bool" where
  "startswith s p = prefix p s"

definition endswith :: "ustr \<Rightarrow> ustr \<Rightarrow> bool" where
  "endswith s p = suffix p s"

section \<open>LatexFormulaHandler\<close>

definition inline_math_pattern :: re where
  "inline_math_pattern = seqs [Lit 36, PlusLazy (NotIn [Ch 36]), Lit 36]"

definition block_math_pattern :: re where
  "block_math_pattern = seqs [Lit 36, Lit 36, StarLazy (In [Space, NotSpace]), Lit 36, Lit 36]"

text \<open>
  The complex patterns have three shapes: a macro with a braced argument,
  a word somewhere inside, and a fixed first character.
\<close>

definition cx_inside :: "re list \<Rightarrow> re" where
  "cx_inside mid = seqs ([Lit 36, StarLazy Dot] @ mid @ [StarLazy Dot, Lit 36])"

definition cx_braced :: "ustr \<Rightarrow> re" where
  "cx_braced name = cx_inside [lits name, Lit 123, StarLazy Dot, Lit 125]"

definition cx_first :: "uchar \<Rightarrow> re" where
  "cx_first c = seqs [Lit 36, Lit c, StarLazy Dot, Lit 36]"

definition complex_math_patterns :: "re list" where
  "complex_math_patterns =
    [cx_braced (bs @ asc ''mathbf''),
     cx_braced (bs @ asc ''mathrm''),
     cx_braced (bs @ asc ''text''),
     cx_inside [lits (bs @ asc ''left''), StarLazy Dot, lits (bs @ asc ''right'')],
     cx_inside [lits (bs @ asc ''frac''), Lit 123, StarLazy Dot, Lit 125, Lit 123, StarLazy Dot, Lit 125],
     cx_inside [lits (bs @ asc ''sum'')],
     cx_inside [lits (bs @ asc ''prod'')],
     cx_inside [lits (bs @ asc ''int'')],
     cx_inside [lits (asc '' for '')],
     cx_braced (asc ''^''),
     cx_braced (asc ''_''),
     cx_braced (bs @ asc ''widetilde''),
     cx_braced (bs @ asc ''mathit''),
     cx_inside [lits (bs @ asc ''Pi'')],
     cx_inside [lits (bs @ asc ''Gamma'')],
     cx_inside [lits (bs @ asc ''nabla'')],
     cx_inside [lits (bs @ asc ''sim'')],
     cx_inside [lits (bs @ asc ''tilde'')],
     cx_inside [lits (bs @ asc ''cdot'')],
     cx_first 94,
     cx_first 95,
     cx_first 92]"

definition math_kinds :: re where
  "math_kinds = Alt (lits (asc ''COMPLEX'')) (Alt (lits (asc ''INLINE''))
                  (Alt (lits (asc ''BLOCK'')) (lits (asc ''ALL''))))"

definition math_token :: re where
  "math_token = seqs [math_kinds, lits (asc ''_MATH_''), Plus (In [Digit])]"

definition math_placeholder_patterns :: "re list" where
  "math_placeholder_patterns =
    [seqs [lits (asc ''__''), math_token, lits (asc ''__'')],
     seqs [lits (asc ''_''), math_token, lits (asc ''_'')],
     seqs [lits (asc ''_ ''), math_token, lits (asc '' _'')],
     seqs [lits (asc ''{''), math_token, lits (asc ''}'')],
     seqs [lits (asc ''___ ''), math_token, lits (asc ''__'')],
     seqs [lits (asc ''__ _''), math_token, lits (asc ''__'')],
     seqs [lits (asc ''__ ''), math_token, lits (asc ''__'')],
     seqs [lits (asc ''___ _''), math_token, lits (asc ''__'')]]"

subsection \<open>protect_formulas\<close>

type_synonym pstate = "ustr \<times> (ustr \<times> ustr) list \<times> nat"

text \<open>The first two loops: every formula found is registered under the next number.\<close>

fun protect_loop :: "string \<Rightarrow> ustr list \<Rightarrow> pstate \<Rightarrow> pstate" where
  "protect_loop kind [] st = st"
| "protect_loop kind (formula # rest) (text, se, counter) =
     protect_loop kind rest
       (str_replace1 formula (placeholder kind counter) text,
        AList.update (placeholder kind counter) formula se,
        counter + 1)"

text \<open>The third loop skips a formula that equals a registered value.\<close>

fun complex_loop :: "ustr list \<Rightarrow> pstate \<Rightarrow> pstate" where
  "complex_loop [] st = st"
| "complex_loop (formula # rest) (text, se, counter) =
     (if List.member (map snd se) formula then complex_loop rest (text, se, counter)
      else complex_loop rest
             (str_replace1 formula (placeholder ''COMPLEX_MATH'' counter) text,
              AList.update (placeholder ''COMPLEX_MATH'' counter) formula se,
              counter + 1))"

fun complex_patterns_loop :: "re list \<Rightarrow> pstate \<Rightarrow> pstate" where
  "complex_patterns_loop [] st = st"
| "complex_patterns_loop (pattern # rest) (text, se, counter) =
     complex_patterns_loop rest (complex_loop (findall0 False pattern text) (text, se, counter))"

fun inline_pass :: "pstate \<Rightarrow> pstate" where
  "inline_pass (text, se, counter) =
     protect_loop ''ALL_MATH'' (findall0 False inline_math_pattern text) (text, se, counter)"

definition protect_formulas :: "ustr \<Rightarrow> (ustr \<times> ustr) list \<Rightarrow> nat \<Rightarrow> pstate" where
  "protect_formulas text se counter =
     complex_patterns_loop complex_math_patterns
       (inline_pass
          (protect_loop ''BLOCK_MATH'' (findall0 False block_math_pattern text) (text, se, counter)))"

subsection \<open>fix_formula_format\<close>

text \<open>The patterns \<open>NAME\{\s*([^}]*)\s*\}\<close> and their replacement \<open>NAME{\1}\<close>.\<close>

definition braced_arg :: "ustr \<Rightarrow> re" where
  "braced_arg name =
     seqs [lits name, Lit 123, Star (In [Space]), Grp 1 (Star (NotIn [Ch 125])),
           Star (In [Space]), Lit 125]"

definition braced_repl :: "ustr \<Rightarrow> rmatch \<Rightarrow> ustr" where
  "braced_repl name m = name @ asc ''{'' @ group 1 m @ asc ''}''"

definition trim_braced :: "ustr \<Rightarrow> ustr \<Rightarrow> ustr" where
  "trim_braced name formula = re_sub False (braced_arg name) (braced_repl name) formula"

definition sim_pattern :: re where
  "sim_pattern = seqs [lits (asc ''${'' @ bs @ asc ''sim}''), Grp 1 (Plus (NotIn [Ch 36])), Lit 36]"

definition sim_pattern_sub :: re where
  "sim_pattern_sub = Seq (Lit 95) sim_pattern"

definition sim_repl :: "rmatch \<Rightarrow> ustr" where
  "sim_repl m = asc ''$'' @ bs @ asc ''sim '' @ group 1 m @ asc ''$''"

definition mathbf_pair :: re where
  "mathbf_pair =
     seqs [lits (bs @ asc ''mathbf{''), Grp 1 (Plus (NotIn [Ch 125])), Lit 125,
           lits (bs @ asc ''mathbf{''), Grp 2 (Plus (NotIn [Ch 125])), Lit 125]"

definition mathbf_repl :: "rmatch \<Rightarrow> ustr" where
  "mathbf_repl m = bs @ asc ''mathbf{'' @ group 1 m @ group 2 m @ asc ''}''"

definition fix_formula_format :: "ustr \<Rightarrow> ustr" where
  "fix_formula_format formula =
     (let formula = str_replace (asc '' $'') (asc ''$'') formula;
          formula = str_replace (asc ''$ '') (asc ''$'') formula;
          formula = str_replace (asc ''$^{'') (asc ''$^{'') formula;
          formula = str_replace (asc ''$_{'') (asc ''$_{'') formula;
          formula = re_sub False sim_pattern sim_repl formula;
          formula = re_sub False sim_pattern_sub sim_repl formula;
          formula = trim_braced (bs @ asc ''mathrm'') formula;
          formula = trim_braced (bs @ asc ''mathbf'') formula;
          formula = re_sub False mathbf_pair mathbf_repl formula;
          formula = trim_braced (asc ''^'') formula;
          formula = trim_braced (asc ''_'') formula;
          formula = trim_braced (bs @ asc ''widetilde'') formula;
          formula = trim_braced (bs @ asc ''tilde'') formula
      in str_replace (asc ''{}'') [] formula)"

subsection \<open>restore_formulas\<close>

definition placeholder_pattern :: re where
  "placeholder_pattern =
     seqs [lits (asc ''__''), Grp 1 (Plus (In [Rng 65 90, Rng 97 122, Ch 95])), Lit 95,
           Grp 2 (Plus (In [Digit])), lits (asc ''__'')]"

text \<open>
  The variants of a placeholder, in the order in which the source assigns them to
  \<open>all_variations_map\<close>; the first two are added before the type and number are extracted.
\<close>

definition typed_variants :: "ustr \<Rightarrow> ustr \<Rightarrow> ustr list" where
  "typed_variants type_name number =
     (let t = lower type_name in
      [asc ''__'' @ t @ asc ''_'' @ number @ asc ''__'',
       asc ''_'' @ t @ asc ''_'' @ number @ asc ''_'',
       asc ''_ '' @ t @ asc ''_'' @ number @ asc '' _'',
       asc ''{'' @ t @ asc ''_'' @ number @ asc ''}'',
       asc ''__'' @ t @ asc ''_'' @ lower number @ asc ''__'',
       asc ''__ '' @ t @ asc '' _ '' @ number @ asc '' __'',
       asc ''__'' @ t @ asc ''_'' @ number @ asc ''__'',
       asc ''__'' @ t @ number @ asc ''__'',
       asc ''__'' @ t @ asc ''-'' @ number @ asc ''__'',
       asc ''__ _'' @ t @ asc ''_'' @ number @ asc ''__'',
       asc ''___ '' @ t @ asc ''_'' @ number @ asc ''__'',
       asc ''__ '' @ t @ asc ''_'' @ number @ asc ''__''])"

fun assign_all :: "ustr list \<Rightarrow> ustr \<Rightarrow> (ustr \<times> ustr) list \<Rightarrow> (ustr \<times> ustr) list" where
  "assign_all [] val m = m"
| "assign_all (k # keys) val m = assign_all keys val (AList.update k val m)"

definition is_math_entry :: "ustr \<Rightarrow> bool" where
  "is_math_entry ph \<longleftrightarrow>
     startswith ph (asc ''__'') \<and> endswith ph (asc ''__'') \<and> re_found True (lits (asc ''MATH'')) ph"

text \<open>The first loop of \<open>restore_formulas\<close> builds \<open>all_variations_map\<close>.\<close>

fun math_variations :: "(ustr \<times> ustr) list \<Rightarrow> (ustr \<times> ustr) list \<Rightarrow> (ustr \<times> ustr) list" where
  "math_variations [] m = m"
| "math_variations ((ph, original) # se) m =
     (if \<not> startswith ph (asc ''__'') \<or> \<not> endswith ph (asc ''__'') then math_variations se m
      else (case re_match False placeholder_pattern ph of
              None \<Rightarrow> math_variations se m
            | Some mt \<Rightarrow>
                if \<not> endswith (group 1 mt) (asc ''MATH'') then math_variations se m
                else math_variations se
                       (assign_all ([ph, lower ph] @ typed_variants (group 1 mt) (group 2 mt))
                          original m)))"

text \<open>First tier: every variant is replaced by the repaired original.\<close>

fun replace_variants :: "(ustr \<times> ustr) list \<Rightarrow> ustr \<Rightarrow> ustr" where
  "replace_variants [] text = text"
| "replace_variants ((variant, original) # m) text =
     replace_variants m (str_replace variant (fix_formula_format original) text)"

text \<open>
  Second tier. The inner loop: the first math entry whose lower-cased placeholder contains
  the lower-cased match, or is contained in it, replaces the match everywhere.
\<close>

fun resolve_match :: "(ustr \<times> ustr) list \<Rightarrow> ustr \<Rightarrow> ustr \<Rightarrow> ustr" where
  "resolve_match [] mt text = text"
| "resolve_match ((ph, original) # se) mt text =
     (if \<not> is_math_entry ph then resolve_match se mt text
      else if contains (lower ph) (lower mt) \<or> contains (lower mt) (lower ph)
           then str_replace mt (fix_formula_format original) text
      else resolve_match se mt text)"

fun resolve_matches :: "(ustr \<times> ustr) list \<Rightarrow> ustr list \<Rightarrow> ustr \<Rightarrow> ustr" where
  "resolve_matches se [] text = text"
| "resolve_matches se (mt # matches) text = resolve_matches se matches (resolve_match se mt text)"

fun pattern_tier :: "(ustr \<times> ustr) list \<Rightarrow> re list \<Rightarrow> ustr \<Rightarrow> ustr" where
  "pattern_tier se [] text = text"
| "pattern_tier se (pattern # patterns) text =
     pattern_tier se patterns (resolve_matches se (findall0 True pattern text) text)"

text \<open>Third tier: a math placeholder still present verbatim.\<close>

fun literal_tier :: "(ustr \<times> ustr) list \<Rightarrow> ustr \<Rightarrow> ustr" where
  "literal_tier [] text = text"
| "literal_tier ((ph, original) # se) text =
     (if \<not> is_math_entry ph then literal_tier se text
      else if contains ph text
           then literal_tier se (str_replace ph (fix_formula_format original) text)
      else literal_tier se text)"

definition restore_formulas :: "ustr \<Rightarrow> registry \<Rightarrow> ustr" where
  "restore_formulas text reg =
     literal_tier (elems reg)
       (pattern_tier (elems reg) math_placeholder_patterns
          (replace_variants (math_variations (elems reg) []) text))"

section \<open>protect_special_elements\<close>

definition code_block_pattern :: re where
  "code_block_pattern =
     seqs [lits (asc ''```''), StarLazy DotAll, Lit nl, Grp 1 (StarLazy DotAll), lits (asc ''```'')]"

definition inline_code_pattern :: re where
  "inline_code_pattern = seqs [Lit 96, Grp 1 (Plus (NotIn [Ch 96])), Lit 96]"

definition html_tag_pattern :: re where
  "html_tag_pattern = seqs [Lit 60, Grp 1 (Plus (NotIn [Ch 62])), Lit 62]"

text \<open>\<open>(?:(?!STOP).)+?\<close>: one or more characters, none of them at the start of \<open>STOP\<close>.\<close>

definition until :: "ustr \<Rightarrow> re" where
  "until stop = PlusLazy (Seq (NotAhead (lits stop)) Dot)"

definition link_pattern :: re where
  "link_pattern =
     seqs [Lit 91, Grp 1 (until (asc '']('')), lits (asc ''](''), Grp 2 (until (asc '')'')), Lit 41]"

definition titled_image_pattern :: re where
  "titled_image_pattern = Seq (Lit 33) link_pattern"

definition untitled_image_pattern :: re where
  "untitled_image_pattern = seqs [lits (asc ''![](''), Grp 1 (until (asc '')'')), Lit 41]"

text \<open>
  The loops over code blocks, inline code and HTML tags run over \<open>enumerate\<close>: the
  placeholder carries the index \<open>i\<close> of the item within its own list, and the registered
  original is the captured group between the two delimiters.
\<close>

type_synonym rstate = "ustr \<times> (ustr \<times> ustr) list"

fun register_loop :: "string \<Rightarrow> ustr \<Rightarrow> ustr \<Rightarrow> nat \<Rightarrow> ustr list \<Rightarrow> rstate \<Rightarrow> rstate" where
  "register_loop kind l r i [] st = st"
| "register_loop kind l r i (x # xs) (text, se) =
     register_loop kind l r (i + 1) xs
       (str_replace1 (l @ x @ r) (placeholder kind i) text,
        AList.update (placeholder kind i) (l @ x @ r) se)"

definition titled_text :: "ustr \<Rightarrow> ustr \<Rightarrow> ustr" where
  "titled_text title url = asc ''!['' @ title @ asc '']('' @ url @ asc '')''"

definition untitled_text :: "ustr \<Rightarrow> ustr" where
  "untitled_text url = asc ''![]('' @ url @ asc '')''"

type_synonym istate = "ustr \<times> (ustr \<times> ustr) list \<times> image list"

fun titled_loop :: "nat \<Rightarrow> (ustr \<times> ustr) list \<Rightarrow> istate \<Rightarrow> istate" where
  "titled_loop i [] st = st"
| "titled_loop i ((title, url) # xs) (text, se, all_image_paths) =
     (if title \<noteq> [] then
        titled_loop (i + 1) xs
          (str_replace1 (titled_text title url) (placeholder ''IMAGE_LINK_TITLED'' i) text,
           AList.update (placeholder ''IMAGE_LINK_TITLED'' i) (titled_text title url) se,
           all_image_paths @ [(True, title, url, placeholder ''IMAGE_LINK_TITLED'' i)])
      else titled_loop (i + 1) xs (text, se, all_image_paths))"

fun untitled_loop :: "nat \<Rightarrow> ustr list \<Rightarrow> istate \<Rightarrow> istate" where
  "untitled_loop i [] st = st"
| "untitled_loop i (url # xs) (text, se, all_image_paths) =
     untitled_loop (i + 1) xs
       (str_replace1 (untitled_text url) (placeholder ''IMAGE_LINK'' i) text,
        AList.update (placeholder ''IMAGE_LINK'' i) (untitled_text url) se,
        all_image_paths @ [(False, [], url, placeholder ''IMAGE_LINK'' i)])"

definition link_text :: "ustr \<Rightarrow> ustr \<Rightarrow> ustr" where
  "link_text title url = asc ''['' @ title @ asc '']('' @ url @ asc '')''"

fun link_loop :: "nat \<Rightarrow> (ustr \<times> ustr) list \<Rightarrow> rstate \<Rightarrow> rstate" where
  "link_loop i [] st = st"
| "link_loop i ((title, url) # xs) (text, se) =
     (if List.member (map snd se) (asc ''!'' @ link_text title url)
      then link_loop (i + 1) xs (text, se)
      else link_loop (i + 1) xs
             (str_replace1 (link_text title url) (placeholder ''LINK'' i) text,
              AList.update (placeholder ''LINK'' i) (link_text title url) se))"

fun code_pass :: "pstate \<Rightarrow> rstate" where
  "code_pass (text, se, counter) =
     register_loop ''CODE_BLOCK'' (asc ''```'' @ [nl]) (asc ''```'') 0
       (findall1 False code_block_pattern text) (text, se)"

fun inline_code_pass :: "rstate \<Rightarrow> rstate" where
  "inline_code_pass (text, se) =
     register_loop ''INLINE_CODE'' (asc ''`'') (asc ''`'') 0
       (findall1 False inline_code_pattern text) (text, se)"

fun html_pass :: "rstate \<Rightarrow> rstate" where
  "html_pass (text, se) =
     register_loop ''HTML_TAG'' (asc ''<'') (asc ''>'') 0
       (findall1 False html_tag_pattern text) (text, se)"

text \<open>Both image searches run on the same text, before either image loop changes it.\<close>

fun image_pass :: "rstate \<Rightarrow> istate" where
  "image_pass (text, se) =
     untitled_loop 0 (findall1 False untitled_image_pattern text)
       (titled_loop 0 (findall2 False titled_image_pattern text) (text, se, []))"

fun link_pass :: "istate \<Rightarrow> ustr \<times> registry" where
  "link_pass (text, se, all_image_paths) =
     (case link_loop 0 (findall2 False link_pattern text) (text, se) of
        (text', se') \<Rightarrow> (text', \<lparr>elems = se', image_paths = Some all_image_paths\<rparr>))"

definition protect_special_elements :: "ustr \<Rightarrow> ustr \<times> registry" where
  "protect_special_elements text =
     link_pass (image_pass (html_pass (inline_code_pass (code_pass (protect_formulas text [] 0)))))"

section \<open>restore_special_elements\<close>

text \<open>
  The dict \<open>lowercase_map\<close> of the source is built and never read; it is left out.
  \<open>placeholder.split('_')[-2]\<close> raises IndexError on a placeholder without an underscore;
  the functions that can meet it return \<open>None\<close> then.
\<close>

fun variations :: "(ustr \<times> ustr) list \<Rightarrow> (ustr \<times> ustr) list \<Rightarrow> (ustr \<times> ustr) list" where
  "variations [] m = m"
| "variations ((ph, original) # se) m =
     (if \<not> startswith ph (asc ''__'') \<or> \<not> endswith ph (asc ''__'') then variations se m
      else if ph = asc ''__ALL_IMAGE_PATHS__'' then variations se m
      else (case re_match False placeholder_pattern ph of
              None \<Rightarrow> variations se (assign_all [ph, lower ph] original m)
            | Some mt \<Rightarrow>
                variations se
                  (assign_all ([ph, lower ph] @ typed_variants (group 1 mt) (group 2 mt))
                     original m)))"

definition typed :: re where
  "typed = seqs [Grp 1 (Plus (In [Rng 65 90, Rng 97 122, Ch 95])), Lit 95, Grp 2 (Plus (In [Digit]))]"

definition pattern_variations :: "re list" where
  "pattern_variations =
     [seqs [lits (asc ''__''), typed, lits (asc ''__'')],
      seqs [lits (asc ''_''), typed, lits (asc ''_'')],
      seqs [lits (asc ''_ ''), typed, lits (asc '' _'')],
      seqs [lits (asc ''{''), typed, lits (asc ''}'')]]"

definition formatter :: "rmatch \<Rightarrow> ustr" where
  "formatter m = asc ''__'' @ group 1 m @ asc ''_'' @ group 2 m @ asc ''__''"

definition replace_with_original :: "(ustr \<times> ustr) list \<Rightarrow> rmatch \<Rightarrow> ustr" where
  "replace_with_original all_variations_map m =
     (case map_of all_variations_map (formatter m) of None \<Rightarrow> group 0 m | Some original \<Rightarrow> original)"

fun sub_variations :: "(ustr \<times> ustr) list \<Rightarrow> re list \<Rightarrow> ustr \<Rightarrow> ustr" where
  "sub_variations m [] text = text"
| "sub_variations m (pattern # patterns) text =
     sub_variations m patterns (re_sub False pattern (replace_with_original m) text)"

fun replace_raw :: "(ustr \<times> ustr) list \<Rightarrow> ustr \<Rightarrow> ustr" where
  "replace_raw [] text = text"
| "replace_raw ((variant, original) # m) text = replace_raw m (str_replace variant original text)"

definition fix_punctuation :: "ustr \<Rightarrow> ustr" where
  "fix_punctuation text =
     str_replace [fw_lparen] (asc ''('')
       (str_replace [fw_rparen] (asc '')'')
          (str_replace (asc '']('') (asc '']('')
             (str_replace [fw_excl, 91] (asc ''!['') text)))"

definition image_syntax :: re where
  "image_syntax =
     seqs [lits (asc ''![''), Grp 1 (StarLazy Dot), lits (asc ''](''), Grp 2 (StarLazy Dot), Lit 41]"

definition strip_underscores :: "ustr \<Rightarrow> ustr" where
  "strip_underscores path =
     (if startswith path (asc ''__'')
      then str_replace (asc ''__'') [] (str_replace (asc ''__ '') [] path)
      else if startswith path (asc ''_ '') then str_replace (asc ''_ '') [] path
      else if startswith path (asc ''_'') then str_replace (asc ''_'') [] path
      else path)"

definition fix_images_dir :: "ustr \<Rightarrow> ustr" where
  "fix_images_dir path =
     (if contains (asc ''_ images/'') path \<or> contains (asc ''__images/'') path
         \<or> contains (asc ''__ images/'') path
      then str_replace (asc ''__ images/'') (asc ''images/'')
             (str_replace (asc ''__images/'') (asc ''images/'')
                (str_replace (asc ''_ images/'') (asc ''images/'') path))
      else path)"

definition fix_image_path_in_markdown :: "rmatch \<Rightarrow> ustr" where
  "fix_image_path_in_markdown m =
     asc ''!['' @ group 1 m @ asc '']('' @ fix_images_dir (strip_underscores (group 2 m)) @ asc '')''"

fun image_text :: "image \<Rightarrow> ustr" where
  "image_text (has_title, title, url, ph) =
     (if has_title then titled_text title url else untitled_text url)"

definition second_last :: "'a list \<Rightarrow> 'a option" where
  "second_last xs = (if length xs < 2 then None else Some (xs ! (length xs - 2)))"

definition titled_variants :: "ustr \<Rightarrow> ustr list" where
  "titled_variants n =
     [asc ''image_link_titled_'' @ n, asc ''IMAGE_LINK_TITLED_'' @ n,
      strip (asc ''image_link_titled_'' @ n), strip (asc ''image link titled '' @ n),
      strip (asc ''imagelinktitled'' @ n)]"

definition untitled_variants :: "ustr \<Rightarrow> ustr list" where
  "untitled_variants n =
     [asc ''image_link_'' @ n, asc ''IMAGE_LINK_'' @ n,
      strip (asc ''image_link_'' @ n), strip (asc ''image link '' @ n),
      strip (asc ''imagelink'' @ n)]"

fun image_variants :: "image \<Rightarrow> ustr list option" where
  "image_variants (has_title, title, url, ph) =
     (case second_last (split_on 95 ph) of
        None \<Rightarrow> None
      | Some n \<Rightarrow>
          Some ([ph, lower ph, str_replace (asc ''__'') (asc ''_'') ph,
                 str_replace (asc ''__'') (asc ''_ '') ph] @
                (if has_title then titled_variants n else untitled_variants n)))"

fun image_placeholder_map :: "image list \<Rightarrow> (ustr \<times> ustr) list \<Rightarrow> (ustr \<times> ustr) list option" where
  "image_placeholder_map [] m = Some m"
| "image_placeholder_map (im # ims) m =
     (case image_variants im of
        None \<Rightarrow> None
      | Some keys \<Rightarrow> image_placeholder_map ims (assign_all keys (image_text im) m))"

text \<open>
  The image placeholder patterns are a prefix, the numeric group and a suffix: the source
  first searches with \<open>(\d+)\<close> and then again with the digits found in its place.
\<close>

definition image_link_affixes :: "(string \<times> string) list" where
  "image_link_affixes =
     [(''__IMAGE_LINK_TITLED_'', ''__''),
      (''__IMAGE_LINK_'', ''__''),
      (''_IMAGE_LINK_TITLED_'', ''_''),
      (''_IMAGE_LINK_'', ''_''),
      (''_ IMAGE_LINK_TITLED_'', '' _''),
      (''_ IMAGE_LINK_'', '' _''),
      (''__image_link_titled_'', ''__''),
      (''__image_link_'', ''__''),
      (''_image_link_titled_'', ''_''),
      (''_image_link_'', ''_''),
      (''image_link_titled_'', ''''),
      (''image_link_'', ''''),
      (''IMAGE_LINK_TITLED_'', ''''),
      (''IMAGE_LINK_'', ''''),
      (''image link titled '', ''''),
      (''image link '', ''''),
      (''imagelinktitled'', ''''),
      (''imagelink'', '''')]"

definition image_link_pattern :: "string \<times> string \<Rightarrow> re \<Rightarrow> re" where
  "image_link_pattern affix num = seqs [lits (asc (fst affix)), Grp 1 num, lits (asc (snd affix))]"

fun tag_matches :: "nat \<Rightarrow> rmatch list \<Rightarrow> (nat \<times> ustr) list" where
  "tag_matches n [] = []"
| "tag_matches n (full_match # rest) = (n, group 0 full_match) # tag_matches n rest"

fun collect_numbers :: "string \<times> string \<Rightarrow> ustr \<Rightarrow> ustr list \<Rightarrow> (nat \<times> ustr) list" where
  "collect_numbers affix text [] = []"
| "collect_numbers affix text (match_num # nums) =
     tag_matches (int_of_str match_num)
       (re_finditer True (image_link_pattern affix (lits match_num)) text)
     @ collect_numbers affix text nums"

fun collect_remaining :: "(string \<times> string) list \<Rightarrow> ustr \<Rightarrow> (nat \<times> ustr) list" where
  "collect_remaining [] text = []"
| "collect_remaining (affix # affixes) text =
     collect_numbers affix text
       (findall1 True (image_link_pattern affix (Plus (In [Digit]))) text)
     @ collect_remaining affixes text"

text \<open>The \<open>i\<close>-th remaining placeholder is replaced by the \<open>i\<close>-th image of the list.\<close>

fun positional_loop :: "image list \<Rightarrow> nat \<Rightarrow> ustr list \<Rightarrow> ustr \<Rightarrow> ustr" where
  "positional_loop all_image_paths i [] text = text"
| "positional_loop all_image_paths i (placeholder_text # rest) text =
     positional_loop all_image_paths (i + 1) rest
       (if i < length all_image_paths
        then str_replace placeholder_text (image_text (all_image_paths ! i)) text
        else text)"

definition sweep_remaining :: "image list \<Rightarrow> ustr \<Rightarrow> ustr" where
  "sweep_remaining all_image_paths text =
     positional_loop all_image_paths 0
       (map snd (sort_key fst (collect_remaining image_link_affixes text))) text"

definition restore_images :: "image list \<Rightarrow> ustr \<Rightarrow> ustr option" where
  "restore_images all_image_paths text =
     (case image_placeholder_map all_image_paths [] of
        None \<Rightarrow> None
      | Some m \<Rightarrow> Some (sweep_remaining all_image_paths (replace_raw m text)))"

definition heading_pattern :: re where
  "heading_pattern = seqs [Bol, Grp 1 (Plus (In [Ch 35, Ch fw_hash])), Grp 2 (StarLazy Dot), Eol]"

definition fix_heading_format :: "rmatch \<Rightarrow> ustr" where
  "fix_heading_format m =
     replicate (length (group 1 m)) 35 @
     (if \<not> startswith (group 2 m) (asc '' '') then asc '' '' @ group 2 m else group 2 m)"

definition fix_headings :: "ustr \<Rightarrow> ustr" where
  "fix_headings text = re_sub False heading_pattern fix_heading_format text"

definition restore_placeholders :: "(ustr \<times> ustr) list \<Rightarrow> ustr \<Rightarrow> ustr" where
  "restore_placeholders all_variations_map text =
     replace_raw all_variations_map (sub_variations all_variations_map pattern_variations text)"

fun restore_image_tier :: "image list option \<Rightarrow> ustr \<Rightarrow> ustr option" where
  "restore_image_tier None text = Some text"
| "restore_image_tier (Some all_image_paths) text = restore_images all_image_paths text"

definition restore_special_elements :: "ustr \<Rightarrow> registry \<Rightarrow> ustr option" where
  "restore_special_elements text reg =
     map_option fix_headings
       (restore_image_tier (image_paths reg)
          (re_sub False image_syntax fix_image_path_in_markdown
             (fix_punctuation
                (restore_placeholders (variations (elems reg) [])
                   (restore_formulas text reg)))))"

section \<open>The translation cache\<close>

text \<open>
  \<open>TranslationCache\<close> keeps a dict and mirrors it into a JSON file after every change.
  Writing the file can fail; the failure is caught and logged and the dict keeps the new
  value. The state is the dict, the file name and the content of the file; a write succeeds
  or not as its last argument says.
\<close>

record cache_state =
  cache :: "ustr \<rightharpoonup> ustr"
  cache_file :: "ustr option"
  disk :: "(ustr \<rightharpoonup> ustr) option"

definition save_cache :: "bool \<Rightarrow> cache_state \<Rightarrow> cache_state" where
  "save_cache ok c =
     (if cache_file c = None then c
      else if ok then c\<lparr>disk := Some (cache c)\<rparr>
      else c)"

definition cache_get :: "cache_state \<Rightarrow> ustr \<Rightarrow> ustr option" where
  "cache_get c key = cache c key"

definition cache_set :: "bool \<Rightarrow> ustr \<Rightarrow> ustr \<Rightarrow> cache_state \<Rightarrow> cache_state" where
  "cache_set ok key val c = save_cache ok (c\<lparr>cache := (cache c)(key \<mapsto> val)\<rparr>)"

definition cache_clear :: "bool \<Rightarrow> cache_state \<Rightarrow> cache_state" where
  "cache_clear ok c = save_cache ok (c\<lparr>cache := Map.empty\<rparr>)"

section \<open>fix_markdown_format\<close>

definition fix_image_link :: "rmatch \<Rightarrow> ustr" where
  "fix_image_link m =
     (if group 1 m = [] \<and> group 2 m \<noteq> [] then asc ''![]('' @ group 2 m @ asc '')''
      else asc ''!['' @ group 1 m @ asc '']('' @ group 2 m @ asc '')'')"

definition digits :: re where
  "digits = Plus (In [Digit])"

definition bare_image_placeholder :: re where
  "bare_image_placeholder =
     Alt (Seq (lits (asc ''image_link_'')) digits)
    (Alt (Seq (lits (asc ''IMAGE_LINK_'')) digits)
    (Alt (Seq (lits (asc ''image_link_titled_'')) digits)
    (Alt (Seq (lits (asc ''IMAGE_LINK_TITLED_'')) digits)
    (Alt (Seq (lits (asc ''image link '')) digits)
    (Alt (Seq (lits (asc ''image link titled '')) digits)
    (Alt (Seq (lits (asc ''imagelink'')) digits)
         (Seq (lits (asc ''imagelinktitled'')) digits)))))))"

definition leftover_patterns :: "re list" where
  "leftover_patterns =
     [seqs [lits (asc ''__IMAGE_LINK_''), digits, lits (asc ''__'')],
      seqs [lits (asc ''__IMAGE_LINK_TITLED_''), digits, lits (asc ''__'')],
      Seq (lits (asc ''image_link_'')) digits,
      Seq (lits (asc ''image_link_titled_'')) digits,
      Seq (lits (asc ''IMAGE_LINK_'')) digits,
      Seq (lits (asc ''IMAGE_LINK_TITLED_'')) digits]"

fun collect_leftovers :: "re list \<Rightarrow> ustr \<Rightarrow> ustr list" where
  "collect_leftovers [] text = []"
| "collect_leftovers (pattern # patterns) text =
     findall0 True pattern text @ collect_leftovers patterns text"

text \<open>
  A placeholder is replaced by the image whose index is the first run of digits in it, if
  the index is in range.
\<close>

definition first_number :: "ustr \<Rightarrow> nat option" where
  "first_number ph =
     (case re_search False (Grp 1 digits) None ph of
        None \<Rightarrow> None
      | Some (b, m, g, p, a) \<Rightarrow> Some (int_of_str (group 1 (m, g))))"

fun indexed_loop :: "image list \<Rightarrow> ustr list \<Rightarrow> ustr \<Rightarrow> ustr" where
  "indexed_loop all_image_paths [] text = text"
| "indexed_loop all_image_paths (ph # rest) text =
     indexed_loop all_image_paths rest
       (case first_number ph of
          None \<Rightarrow> text
        | Some index \<Rightarrow>
            if index < length all_image_paths
            then str_replace ph (image_text (all_image_paths ! index)) text
            else text)"

definition sweep_positional :: "image list \<Rightarrow> ustr \<Rightarrow> ustr" where
  "sweep_positional all_image_paths text =
     positional_loop all_image_paths 0 (findall0 True bare_image_placeholder text) text"

definition sweep_leftovers :: "image list \<Rightarrow> ustr \<Rightarrow> ustr" where
  "sweep_leftovers all_image_paths text =
     indexed_loop all_image_paths (collect_leftovers leftover_patterns text) text"

text \<open>
  The guard \<open>special_elements and "__ALL_IMAGE_PATHS__" in special_elements\<close>: a registry was
  passed and holds the image list (a dict with that key is not empty).
\<close>

fun registry_images :: "registry option \<Rightarrow> image list option" where
  "registry_images None = None"
| "registry_images (Some reg) = image_paths reg"

fun fix_image_placeholders :: "image list option \<Rightarrow> ustr \<Rightarrow> ustr" where
  "fix_image_placeholders None text = text"
| "fix_image_placeholders (Some all_image_paths) text =
     sweep_leftovers all_image_paths (sweep_positional all_image_paths text)"

definition fix_markdown_format :: "ustr \<Rightarrow> registry option \<Rightarrow> ustr" where
  "fix_markdown_format markdown_text special_elements =
     fix_image_placeholders (registry_images special_elements)
       (re_sub False image_syntax fix_image_link (fix_headings markdown_text))"

section \<open>translate_markdown\<close>

text \<open>
  The translation services are outside the program. A call either returns a text, or fails
  (the exception is caught, or the service is not supported) and the protected text is used
  unchanged, or, for DeepSeek without a key or URL, the paragraph is dropped by a
  \<open>continue\<close> that appends nothing.
\<close>

datatype outcome = Translated ustr | Failed | Dropped

record tstate =
  translated_paragraphs :: "ustr list"
  all_special_elements :: "registry option"
  tcache :: cache_state

definition paragraph_separator :: re where
  "paragraph_separator = Seq (Lit nl) (Plus (Lit nl))"

text \<open>\<open>dict.update\<close>: the entries of the unit, in their order, and its image list.\<close>

fun update_all :: "(ustr \<times> ustr) list \<Rightarrow> (ustr \<times> ustr) list \<Rightarrow> (ustr \<times> ustr) list" where
  "update_all [] m = m"
| "update_all ((k, v) # kvs) m = update_all kvs (AList.update k v m)"

fun registry_update :: "registry option \<Rightarrow> registry \<Rightarrow> registry option" where
  "registry_update None reg = Some reg"
| "registry_update (Some acc) reg =
     Some \<lparr>elems = update_all (elems reg) (elems acc),
           image_paths = (case image_paths reg of None \<Rightarrow> image_paths acc | Some l \<Rightarrow> Some l)\<rparr>"

definition cache_key :: "ustr \<Rightarrow> ustr \<Rightarrow> ustr \<Rightarrow> ustr \<Rightarrow> ustr" where
  "cache_key paragraph lang_in lang_out service =
     paragraph @ asc ''_'' @ lang_in @ asc ''_'' @ lang_out @ asc ''_'' @ service"

record config =
  call :: "ustr \<Rightarrow> outcome"
  write_ok :: bool
  lang_in :: ustr
  lang_out :: ustr
  service :: ustr
  ignore_cache :: bool

definition append_paragraph :: "ustr \<Rightarrow> tstate \<Rightarrow> tstate" where
  "append_paragraph p st = st\<lparr>translated_paragraphs := translated_paragraphs st @ [p]\<rparr>"

definition store :: "config \<Rightarrow> ustr \<Rightarrow> ustr \<Rightarrow> tstate \<Rightarrow> tstate" where
  "store cfg paragraph restored_text st =
     append_paragraph restored_text
       (st\<lparr>tcache := cache_set (write_ok cfg)
                        (cache_key paragraph (lang_in cfg) (lang_out cfg) (service cfg))
                        restored_text (tcache st)\<rparr>)"

text \<open>The branch taken when the source and the target language differ.\<close>

fun restore_translated :: "config \<Rightarrow> ustr \<Rightarrow> registry \<Rightarrow> tstate \<Rightarrow> ustr \<Rightarrow> tstate option" where
  "restore_translated cfg paragraph special_elements st translated_text =
     (case restore_special_elements (restore_formulas translated_text special_elements)
             special_elements of
        None \<Rightarrow> None
      | Some restored_text \<Rightarrow> Some (store cfg paragraph restored_text st))"

fun after_call :: "config \<Rightarrow> ustr \<Rightarrow> ustr \<Rightarrow> registry \<Rightarrow> tstate \<Rightarrow> outcome \<Rightarrow> tstate option" where
  "after_call cfg paragraph protected_text special_elements st Dropped = Some st"
| "after_call cfg paragraph protected_text special_elements st Failed =
     restore_translated cfg paragraph special_elements st protected_text"
| "after_call cfg paragraph protected_text special_elements st (Translated t) =
     restore_translated cfg paragraph special_elements st t"

fun process_protected :: "config \<Rightarrow> ustr \<Rightarrow> tstate \<Rightarrow> ustr \<times> registry \<Rightarrow> tstate option" where
  "process_protected cfg paragraph st (protected_text, special_elements) =
     (if lang_in cfg = lang_out cfg
      then Some (store cfg paragraph (restore_formulas protected_text special_elements)
                   (st\<lparr>all_special_elements :=
                          registry_update (all_special_elements st) special_elements\<rparr>))
      else after_call cfg paragraph protected_text special_elements
             (st\<lparr>all_special_elements :=
                    registry_update (all_special_elements st) special_elements\<rparr>)
             (call cfg protected_text))"

text \<open>\<open>if cached_result:\<close> holds for a cached text that is not empty.\<close>

fun cache_hit :: "config \<Rightarrow> ustr \<Rightarrow> tstate \<Rightarrow> ustr option" where
  "cache_hit cfg paragraph st =
     (if ignore_cache cfg then None
      else (case cache_get (tcache st)
                   (cache_key paragraph (lang_in cfg) (lang_out cfg) (service cfg)) of
              None \<Rightarrow> None
            | Some cached_result \<Rightarrow> if cached_result = [] then None else Some cached_result))"

fun translate_paragraph :: "config \<Rightarrow> ustr \<Rightarrow> tstate \<Rightarrow> tstate option" where
  "translate_paragraph cfg paragraph st =
     (if strip paragraph = [] then Some (append_paragraph paragraph st)
      else (case cache_hit cfg paragraph st of
              Some cached_result \<Rightarrow> Some (append_paragraph cached_result st)
            | None \<Rightarrow> process_protected cfg paragraph st (protect_special_elements paragraph)))"

fun translate_paragraphs :: "config \<Rightarrow> ustr list \<Rightarrow> tstate \<Rightarrow> tstate option" where
  "translate_paragraphs cfg [] st = Some st"
| "translate_paragraphs cfg (paragraph # rest) st =
     (case translate_paragraph cfg paragraph st of
        None \<Rightarrow> None
      | Some st' \<Rightarrow> translate_paragraphs cfg rest st')"

fun join :: "ustr \<Rightarrow> ustr list \<Rightarrow> ustr" where
  "join sep [] = []"
| "join sep [x] = x"
| "join sep (x # y # ys) = x @ sep @ join sep (y # ys)"

text \<open>The last sweep of \<open>translate_markdown\<close> over the joined and repaired text.\<close>

fun final_sweep :: "image list option \<Rightarrow> ustr \<Rightarrow> ustr" where
  "final_sweep None result = result"
| "final_sweep (Some all_image_paths) result =
     indexed_loop all_image_paths (findall0 True bare_image_placeholder result) result"

definition finish :: "tstate \<Rightarrow> ustr" where
  "finish st =
     final_sweep (registry_images (all_special_elements st))
       (fix_markdown_format (join [nl, nl] (translated_paragraphs st)) (all_special_elements st))"

text \<open>
  \<open>translate_markdown\<close> returns the text; the cache it leaves behind is returned with it. An
  IndexError in \<open>restore_special_elements\<close> is not caught and ends the call (\<open>None\<close>).
\<close>

definition translate_markdown :: "config \<Rightarrow> cache_state \<Rightarrow> ustr \<Rightarrow> (ustr \<times> cache_state) option" where
  "translate_markdown cfg cache0 markdown_text =
     (case translate_paragraphs cfg (re_split paragraph_separator markdown_text)
             \<lparr>translated_paragraphs = [], all_special_elements = None, tcache = cache0\<rparr> of
        None \<Rightarrow> None
      | Some st \<Rightarrow> Some (finish st, tcache st))"

section \<open>Inputs used below\<close>




definition empty_cache :: cache_state where
  "empty_cache = \<lparr>cache = Map.empty, cache_file = None, disk = None\<rparr>"

text \<open>A call with equal languages, and a call to a service that returns its input.\<close>

definition same_language :: config where
  "same_language =
     \<lparr>call = Translated, write_ok = True, lang_in = asc ''en'', lang_out = asc ''en'',
      service = asc ''google'', ignore_cache = True\<rparr>"

definition identity_service :: config where
  "identity_service =
     \<lparr>call = Translated, write_ok = True, lang_in = asc ''en'', lang_out = asc ''zh'',
      service = asc ''google'', ignore_cache = True\<rparr>"

text \<open>A service that renders the three image placeholders in their bare lower-case form.\<close>

definition three_images :: ustr where
  "three_images = asc ''![](a.png) ![](b.png) ![](c.png)''"

definition bare_tokens :: "ustr \<Rightarrow> outcome" where
  "bare_tokens t = Translated (asc ''imagelink0 imagelink1 imagelink2'')"

definition bare_service :: config where
  "bare_service =
     \<lparr>call = bare_tokens, write_ok = True, lang_in = asc ''en'', lang_out = asc ''zh'',
      service = asc ''google'', ignore_cache = True\<rparr>"

section \<open>Strings and patterns\<close>

lemma asc_simps [simp]: "asc [] = []" "asc (c # s) = of_char c # asc s"
  by (simp_all add: asc_def)

lemma str_replace_Nil [simp]: "old \<noteq> [] \<Longrightarrow> str_replace old new [] = []"
  by (simp add: str_replace.simps)

lemma prefix_has: "prefix old s \<Longrightarrow> c \<in> set old \<Longrightarrow> c \<in> set s"
  using set_mono_prefix by blast

lemma str_replace_absent:
  "c \<in> set old \<Longrightarrow> c \<notin> set s \<Longrightarrow> str_replace old new s = s"
proof (induction s)
  case Nil
  then have "old \<noteq> []" by auto
  then show ?case by simp
next
  case (Cons x s)
  have np: "\<not> prefix old (x # s)"
  proof
    assume "prefix old (x # s)"
    from prefix_has[OF this Cons.prems(1)] Cons.prems(2) show False by simp
  qed
  from Cons.prems have ne: "old \<noteq> []" by auto
  from Cons have ih: "str_replace old new s = s" by simp
  show ?case by (subst str_replace.simps) (simp only: np ne ih if_False list.case)
qed

lemma str_replace_same_aux: "new = old \<Longrightarrow> str_replace old new s = s"
proof (induction old new s rule: str_replace.induct)
  case (1 old new s)
  show ?case
  proof (cases "old = []")
    case True
    have "concat (map (\<lambda>c. [c]) s) = s" by (induction s) auto
    with True 1(3) show ?thesis by (simp add: str_replace.simps)
  next
    case False
    show ?thesis
    proof (cases "prefix old s")
      case True
      then obtain t where t: "s = old @ t" by (auto simp: prefix_def)
      from 1(1)[OF False True 1(3)] t have "str_replace old new t = t" by simp
      then have "new @ str_replace old new (drop (length old) s) = s"
        using t 1(3) by simp
      with False True show ?thesis by (subst str_replace.simps) simp
    next
      case np: False
      show ?thesis
      proof (cases s)
        case Nil
        with False show ?thesis by simp
      next
        case (Cons x t)
        from 1(2)[OF False np Cons 1(3)] have "str_replace old new t = t" .
        with False np Cons show ?thesis by (subst str_replace.simps) simp
      qed
    qed
  qed
qed

lemma str_replace_same: "str_replace old old s = s"
  by (rule str_replace_same_aux) simp

lemma str_replace_skip:
  "old \<noteq> [] \<Longrightarrow> hd old \<notin> set a \<Longrightarrow> str_replace old new (a @ s) = a @ str_replace old new s"
proof (induction a)
  case Nil
  then show ?case by simp
next
  case (Cons x a)
  then have "\<not> prefix old (x # a @ s)" by (cases old) auto
  with Cons show ?case by (subst str_replace.simps) auto
qed

lemma str_replace_hit:
  "old \<noteq> [] \<Longrightarrow> str_replace old new (old @ s) = new @ str_replace old new s"
  by (subst str_replace.simps) simp

lemma contains_absent: "c \<in> set old \<Longrightarrow> c \<notin> set s \<Longrightarrow> \<not> contains old s"
proof (induction s)
  case Nil
  then show ?case by auto
next
  case (Cons x s)
  then show ?case using prefix_has[of old "x # s" c] by auto
qed

text \<open>
  A pattern that can only match a text holding one of the characters \<open>C\<close>: some literal or
  class that every match has to consume lies in \<open>C\<close>.
\<close>

fun needs :: "bool \<Rightarrow> uchar set \<Rightarrow> re \<Rightarrow> bool" where
  "needs ic C (Lit c) = (\<forall>d. lit_eq ic c d \<longrightarrow> d \<in> C)"
| "needs ic C (In cs) = (\<forall>d. in_class cs d \<longrightarrow> d \<in> C)"
| "needs ic C (Seq a b) = (needs ic C a \<or> needs ic C b)"
| "needs ic C (Alt a b) = (needs ic C a \<and> needs ic C b)"
| "needs ic C (Grp n r) = needs ic C r"
| "needs ic C r = False"

lemma step1_none: "\<forall>d\<in>set s. \<not> P d \<Longrightarrow> step1 P (p, s, g) = []"
  by (cases s) auto

lemma ms_needs:
  "needs ic C r \<Longrightarrow> set s \<inter> C = {} \<Longrightarrow> ms ic r (p, s, g) = []"
proof (induction r arbitrary: p s g)
  case (Lit c)
  then show ?case by (cases s) auto
next
  case (In cs)
  then show ?case by (cases s) auto
next
  case (Seq a b)
  show ?case
  proof (cases "needs ic C a")
    case True
    with Seq show ?thesis by simp
  next
    case False
    with Seq.prems have nb: "needs ic C b" by simp
    have "ms ic b x = []" if "x \<in> set (ms ic a (p, s, g))" for x
    proof -
      obtain q t h where x: "x = (q, t, h)" by (cases x)
      with that have "suffix t s" using ms_suffix by fastforce
      then have "set t \<subseteq> set s" by (rule set_mono_suffix)
      with Seq.prems(2) have "set t \<inter> C = {}" by auto
      from Seq.IH(2)[OF nb this] x show ?thesis by simp
    qed
    then show ?thesis by simp
  qed
next
  case (Alt a b)
  then show ?case by simp
next
  case (Grp n r)
  then show ?case by simp
qed simp_all

lemma re_search_needs:
  "needs ic C r \<Longrightarrow> set s \<inter> C = {} \<Longrightarrow> re_search ic r p s = None"
proof (induction s arbitrary: p)
  case Nil
  then show ?case by (simp add: ms_needs)
next
  case (Cons c s)
  from Cons.prems have "set s \<inter> C = {}" by auto
  with Cons have "re_search ic r (Some c) s = None" by simp
  with Cons.prems show ?case by (simp add: ms_needs)
qed

lemma re_scan_needs:
  "needs ic C r \<Longrightarrow> set s \<inter> C = {} \<Longrightarrow> re_scan ic r p s = ([], s)"
  by (subst re_scan.simps) (simp add: re_search_needs)

lemma findall0_needs: "needs ic C r \<Longrightarrow> set s \<inter> C = {} \<Longrightarrow> findall0 ic r s = []"
  by (simp add: findall0_def re_finditer_def re_scan_needs)



lemma re_sub_needs: "needs ic C r \<Longrightarrow> set s \<inter> C = {} \<Longrightarrow> re_sub ic r f s = s"
  by (simp add: re_sub_def re_scan_needs)




section \<open>Restoring a single math placeholder\<close>

lemma str_replace_not_contained:
  "old \<noteq> [] \<Longrightarrow> \<not> contains old s \<Longrightarrow> str_replace old new s = s"
proof (induction s)
  case Nil
  then show ?case by simp
next
  case (Cons x s)
  then have np: "\<not> prefix old (x # s)" and ih: "str_replace old new s = s" by auto
  from Cons.prems(1) show ?case
    by (subst str_replace.simps) (simp only: np ih if_False list.case)
qed

lemma prefix_append_last:
  assumes "prefix old (v @ b)" "old \<noteq> []" "last old \<notin> set b"
  shows "prefix old v"
proof -
  from assms(1) obtain r where r: "v @ b = old @ r" by (auto simp: prefix_def)
  show ?thesis
  proof (cases "length old \<le> length v")
    case True
    with r show ?thesis
      by (metis append_eq_append_conv_if prefix_def append_take_drop_id)
  next
    case False
    then have "length v < length old" by simp
    with r obtain u where u: "old = v @ u" "u \<noteq> []" "b = u @ r"
      by (metis append_eq_append_conv_if append_take_drop_id drop_eq_Nil leD)
    then have "last old = last u" by simp
    also have "\<dots> \<in> set u" using u(2) by simp
    finally have "last old \<in> set b" using u(3) by simp
    with assms(3) show ?thesis by simp
  qed
qed

lemma str_replace_before:
  "old \<noteq> [] \<Longrightarrow> last old = c \<Longrightarrow> c \<notin> set b \<Longrightarrow>
   str_replace old new (v @ b) = str_replace old new v @ b"
proof (induction v rule: length_induct)
  case (1 v)
  have cb: "str_replace old new b = b"
    using 1(2,3,4) by (intro str_replace_absent[of c]) (auto simp: last_in_set)
  show ?case
  proof (cases "prefix old (v @ b)")
    case True
    with 1(2,3,4) have pv: "prefix old v" by (intro prefix_append_last[of old v b]) auto
    then obtain r where r: "v = old @ r" by (auto simp: prefix_def)
    with 1(2) have "length r < length v" by simp
    with 1(1) 1(2,3,4) have "str_replace old new (r @ b) = str_replace old new r @ b" by blast
    with r 1(2) show ?thesis by (simp add: str_replace_hit)
  next
    case False
    then have npv: "\<not> prefix old v" by (auto simp: prefix_def)
    show ?thesis
    proof (cases v)
      case Nil
      with cb 1(2) show ?thesis by simp
    next
      case (Cons x r)
      with 1(1) 1(2,3,4) have ih: "str_replace old new (r @ b) = str_replace old new r @ b" by simp
      have "str_replace old new ((x # r) @ b) = x # str_replace old new (r @ b)"
        using False 1(2) Cons by (subst str_replace.simps) simp
      moreover have "str_replace old new (x # r) = x # str_replace old new r"
        using npv 1(2) Cons by (subst str_replace.simps) simp
      ultimately show ?thesis using ih Cons by simp
    qed
  qed
qed

lemma str_replace_inside:
  assumes "old \<noteq> []" "hd old = c" "last old = c" "c \<notin> set a" "c \<notin> set b"
  shows "str_replace old new (a @ v @ b) = a @ str_replace old new v @ b"
  using assms by (simp add: str_replace_skip str_replace_before[of old c b])

lemma str_replace_whole: "old \<noteq> [] \<Longrightarrow> str_replace old new old = new"
  using str_replace_hit[of old new "[]"] by simp

text \<open>
  The first tier on a text \<open>a @ v @ b\<close> whose only underscores lie in the variant \<open>v\<close>: the
  variants tried before \<open>v\<close> do not occur in it, \<open>v\<close> itself is replaced, and the variants
  tried afterwards find no underscore left.
\<close>

lemma replace_variants_absent:
  "\<forall>k\<in>set ks. c \<in> set k \<Longrightarrow> c \<notin> set t \<Longrightarrow> replace_variants (map (\<lambda>k. (k, f)) ks) t = t"
  by (induction ks arbitrary: t) (auto simp: str_replace_absent)

lemma replace_variants_at:
  assumes "c \<notin> set a" "c \<notin> set b" "c \<notin> set (fix_formula_format f)"
    and "\<forall>k\<in>set before. k \<noteq> [] \<and> hd k = c \<and> last k = c \<and> \<not> contains k v"
    and "v \<noteq> []" "hd v = c" "last v = c"
    and "\<forall>k\<in>set after. c \<in> set k"
  shows "replace_variants (map (\<lambda>k. (k, f)) (before @ v # after)) (a @ v @ b)
           = a @ fix_formula_format f @ b"
  using assms(4)
proof (induction before)
  case Nil
  have "str_replace v (fix_formula_format f) (a @ v @ b) = a @ fix_formula_format f @ b"
    using assms by (simp add: str_replace_inside[of v c] str_replace_whole)
  moreover have "replace_variants (map (\<lambda>k. (k, f)) after) (a @ fix_formula_format f @ b)
                   = a @ fix_formula_format f @ b"
    using assms by (intro replace_variants_absent[of _ c]) auto
  ultimately show ?case by simp
next
  case (Cons k before)
  then have k: "k \<noteq> []" "hd k = c" "last k = c" "\<not> contains k v" by auto
  have "str_replace k (fix_formula_format f) (a @ v @ b) = a @ v @ b"
    using k assms(1,2) by (simp add: str_replace_inside[of k c] str_replace_not_contained)
  with Cons show ?case by simp
qed

lemma lit_eq_underscore [simp]: "lit_eq ic 95 d \<longleftrightarrow> d = 95"
  by (auto simp: lit_eq_def simple_lower_def Let_def)

lemma math_placeholder_patterns_need_underscore:
  "\<forall>r\<in>set math_placeholder_patterns. needs True {95} r"
  by (simp add: math_placeholder_patterns_def math_token_def)

lemma pattern_tier_needs:
  "\<forall>r\<in>set rs. needs True C r \<Longrightarrow> set t \<inter> C = {} \<Longrightarrow> pattern_tier se rs t = t"
  by (induction rs arbitrary: t) (auto simp: findall0_needs)

text \<open>
  \<open>restore_formulas\<close> on a registry with one math entry, for a text whose only underscores
  lie in one variant of its placeholder.
\<close>

lemma restore_formulas_variant:
  assumes vars: "math_variations [(ph, f)] [] = map (\<lambda>k. (k, f)) (before @ v # after)"
    and a: "95 \<notin> set a" and b: "95 \<notin> set b" and f: "95 \<notin> set (fix_formula_format f)"
    and before: "\<forall>k\<in>set before. k \<noteq> [] \<and> hd k = 95 \<and> last k = 95 \<and> \<not> contains k v"
    and v: "v \<noteq> []" "hd v = 95" "last v = 95"
    and after: "\<forall>k\<in>set after. 95 \<in> set k"
    and ph: "is_math_entry ph" "95 \<in> set ph"
  shows "restore_formulas (a @ v @ b) \<lparr>elems = [(ph, f)], image_paths = ip\<rparr>
           = a @ fix_formula_format f @ b"
proof -
  let ?T = "a @ fix_formula_format f @ b"
  have T: "95 \<notin> set ?T" using a b f by simp
  have tier1: "replace_variants (math_variations [(ph, f)] []) (a @ v @ b) = ?T"
    unfolding vars using a b f before v after by (rule replace_variants_at)
  have tier2: "pattern_tier [(ph, f)] math_placeholder_patterns ?T = ?T"
    using T by (intro pattern_tier_needs[of _ "{95}"] math_placeholder_patterns_need_underscore) simp
  have "\<not> contains ph ?T"
    using T ph(2) by (intro contains_absent[of 95]) simp_all
  then have tier3: "literal_tier [(ph, f)] ?T = ?T"
    using ph(1) by (simp only: literal_tier.simps if_False if_True not_True_eq_False)
  show ?thesis
    by (simp only: restore_formulas_def registry.select_convs tier1 tier2 tier3)
qed

subsection \<open>The placeholders \<open>__ALL_MATH_0__\<close> and \<open>__BLOCK_MATH_0__\<close>\<close>

definition all_math_0_variants :: "ustr list" where
  "all_math_0_variants =
     [asc ''__ALL_MATH_0__'', asc ''__all_math_0__'', asc ''_all_math_0_'', asc ''_ all_math_0 _'',
      asc ''{all_math_0}'', asc ''__ all_math _ 0 __'', asc ''__all_math0__'', asc ''__all_math-0__'',
      asc ''__ _all_math_0__'', asc ''___ all_math_0__'', asc ''__ all_math_0__'']"

definition block_math_0_variants :: "ustr list" where
  "block_math_0_variants =
     [asc ''__BLOCK_MATH_0__'', asc ''__block_math_0__'', asc ''_block_math_0_'',
      asc ''_ block_math_0 _'', asc ''{block_math_0}'', asc ''__ block_math _ 0 __'',
      asc ''__block_math0__'', asc ''__block_math-0__'', asc ''__ _block_math_0__'',
      asc ''___ block_math_0__'', asc ''__ block_math_0__'']"

lemma math_variations_all_math_0:
  "math_variations [(asc ''__ALL_MATH_0__'', f)] [] = map (\<lambda>k. (k, f)) all_math_0_variants"
  by code_simp

lemma math_variations_block_math_0:
  "math_variations [(asc ''__BLOCK_MATH_0__'', f)] [] = map (\<lambda>k. (k, f)) block_math_0_variants"
  by code_simp

lemma is_math_entry_all_math_0: "is_math_entry (asc ''__ALL_MATH_0__'')"
  by code_simp

lemma is_math_entry_block_math_0: "is_math_entry (asc ''__BLOCK_MATH_0__'')"
  by code_simp

text \<open>The underscore-delimited variants at the head of the list, one after the other.\<close>

lemma variant_side_conditions:
  "i < 4 \<Longrightarrow> ks = all_math_0_variants \<or> ks = block_math_0_variants \<Longrightarrow>
   (\<forall>k\<in>set (take i ks). k \<noteq> [] \<and> hd k = 95 \<and> last k = 95 \<and> \<not> contains k (ks ! i))
   \<and> ks ! i \<noteq> [] \<and> hd (ks ! i) = 95 \<and> last (ks ! i) = 95
   \<and> (\<forall>k\<in>set (drop (Suc i) ks). 95 \<in> set k)"
proof -
  assume "i < 4" 
  then consider "i = 0" | "i = 1" | "i = 2" | "i = 3" by linarith
  moreover assume "ks = all_math_0_variants \<or> ks = block_math_0_variants"
  ultimately show ?thesis
    by cases (auto simp: all_math_0_variants_def block_math_0_variants_def)
qed

lemma restore_math_0:
  assumes "i < 4"
    and "(ph, ks) = (asc ''__ALL_MATH_0__'', all_math_0_variants)
         \<or> (ph, ks) = (asc ''__BLOCK_MATH_0__'', block_math_0_variants)"
    and "95 \<notin> set a" "95 \<notin> set b" "95 \<notin> set (fix_formula_format f)"
  shows "restore_formulas (a @ ks ! i @ b) \<lparr>elems = [(ph, f)], image_paths = ip\<rparr>
           = a @ fix_formula_format f @ b"
proof -
  have len: "length ks = 11"
    using assms(2) by (auto simp: all_math_0_variants_def block_math_0_variants_def)
  with assms(1) have split: "ks = take i ks @ ks ! i # drop (Suc i) ks"
    by (simp add: id_take_nth_drop)
  have vars: "math_variations [(ph, f)] [] = map (\<lambda>k. (k, f)) (take i ks @ ks ! i # drop (Suc i) ks)"
    using assms(2) split math_variations_all_math_0 math_variations_block_math_0 by auto
  have ph: "is_math_entry ph" "95 \<in> set ph"
    using assms(2) is_math_entry_all_math_0 is_math_entry_block_math_0 by auto
  from assms(2) have "ks = all_math_0_variants \<or> ks = block_math_0_variants" by auto
  from variant_side_conditions[OF assms(1) this]
  show ?thesis
    using vars assms(3-5) ph by (intro restore_formulas_variant) auto
qed






section \<open>Formulas without braces\<close>

text \<open>
  Replacing a two-character string by one character, written as a recursion on the text,
  and the test for two adjacent characters.
\<close>

fun squeeze :: "uchar \<Rightarrow> uchar \<Rightarrow> uchar \<Rightarrow> ustr \<Rightarrow> ustr" where
  "squeeze a b c (x # y # t) =
     (if x = a \<and> y = b then c # squeeze a b c t else x # squeeze a b c (y # t))"
| "squeeze a b c [x] = [x]"
| "squeeze a b c [] = []"

fun adj :: "uchar \<Rightarrow> uchar \<Rightarrow> ustr \<Rightarrow> bool" where
  "adj a b (x # y # t) = ((x = a \<and> y = b) \<or> adj a b (y # t))"
| "adj a b [x] = False"
| "adj a b [] = False"

lemma str_replace_squeeze: "str_replace [a, b] [c] s = squeeze a b c s"
proof (induction a b c s rule: squeeze.induct)
  case (1 a b c x y t)
  then show ?case by (subst str_replace.simps) auto
next
  case (2 a b c x)
  then show ?case by (subst str_replace.simps) (simp add: str_replace.simps[of _ _ "[]"])
next
  case (3 a b c)
  then show ?case by simp
qed

lemma contains_adj: "contains [a, b] s = adj a b s"
  by (induction a b s rule: adj.induct) auto

lemma adj_Cons: "adj a b (x # s) = ((s \<noteq> [] \<and> x = a \<and> hd s = b) \<or> adj a b s)"
  by (cases s) auto

lemma hd_squeeze:
  "hd (squeeze a b c (y # t)) = (if t \<noteq> [] \<and> y = a \<and> hd t = b then c else y)"
  by (cases t) auto

lemma squeeze_Nil_iff [simp]: "squeeze a b c s = [] \<longleftrightarrow> s = []"
  by (induction a b c s rule: squeeze.induct) auto

lemma set_squeeze: "set (squeeze a b c s) \<subseteq> insert c (set s)"
  by (induction a b c s rule: squeeze.induct) auto

lemma before_dollar_1: "\<not> adj 32 32 s \<Longrightarrow> \<not> adj 32 36 (squeeze 32 36 36 s)"
proof (induction "32::int" "36::int" "36::int" s rule: squeeze.induct)
  case (1 x y t)
  then show ?case by (cases t) (auto simp: adj_Cons hd_squeeze split: if_splits)
qed auto

lemma before_dollar_2: "\<not> adj 32 32 s \<Longrightarrow> \<not> adj 32 32 (squeeze 32 36 36 s)"
proof (induction "32::int" "36::int" "36::int" s rule: squeeze.induct)
  case (1 x y t)
  then show ?case by (cases t) (auto simp: adj_Cons hd_squeeze split: if_splits)
qed auto

lemma after_dollar_1: "\<not> adj 32 32 s \<Longrightarrow> \<not> adj 36 32 (squeeze 36 32 36 s)"
proof (induction "36::int" "32::int" "36::int" s rule: squeeze.induct)
  case (1 x y t)
  then show ?case by (cases t) (auto simp: adj_Cons hd_squeeze split: if_splits)
qed auto

lemma after_dollar_2: "\<not> adj 32 36 s \<Longrightarrow> \<not> adj 32 36 (squeeze 36 32 36 s)"
proof (induction "36::int" "32::int" "36::int" s rule: squeeze.induct)
  case (1 x y t)
  then show ?case by (cases t) (auto simp: adj_Cons hd_squeeze split: if_splits)
qed auto

lemma squeeze_fixed: "\<not> adj a b s \<Longrightarrow> squeeze a b c s = s"
  by (induction a b c s rule: squeeze.induct) auto

definition trim_dollars :: "ustr \<Rightarrow> ustr" where
  "trim_dollars s = squeeze 36 32 36 (squeeze 32 36 36 s)"

lemma trim_dollars_idem: "\<not> adj 32 32 s \<Longrightarrow> trim_dollars (trim_dollars s) = trim_dollars s"
  unfolding trim_dollars_def
  by (simp add: squeeze_fixed before_dollar_1 before_dollar_2 after_dollar_1 after_dollar_2)

lemma trim_dollars_brace: "123 \<notin> set s \<Longrightarrow> 123 \<notin> set (trim_dollars s)"
  unfolding trim_dollars_def using set_squeeze[of 36 32 36] set_squeeze[of 32 36 36 s] by fastforce

text \<open>Without an opening brace only the two dollar-sign replacements act.\<close>

lemma fix_formula_format_brace_free:
  assumes "123 \<notin> set s"
  shows "fix_formula_format s = trim_dollars s"
proof -
  have t: "set (trim_dollars s) \<inter> {123} = {}" using trim_dollars_brace[OF assms] by simp
  have n: "needs False {123} sim_pattern" "needs False {123} sim_pattern_sub"
    "needs False {123} mathbf_pair" "\<And>name. needs False {123} (braced_arg name)"
    by (simp_all add: sim_pattern_def sim_pattern_sub_def mathbf_pair_def braced_arg_def lit_eq_def bs_def)
  have e: "str_replace (asc ''{}'') [] (trim_dollars s) = trim_dollars s"
    using t by (intro str_replace_absent[of 123]) simp_all
  have d: "str_replace (asc ''$ '') (asc ''$'') (str_replace (asc '' $'') (asc ''$'') s) = trim_dollars s"
    by (simp add: str_replace_squeeze trim_dollars_def)
  show ?thesis
    unfolding fix_formula_format_def Let_def d str_replace_same trim_braced_def
    by (simp only: re_sub_needs[OF n(1) t] re_sub_needs[OF n(2) t] re_sub_needs[OF n(3) t]
          re_sub_needs[OF n(4) t] e)
qed

section \<open>Heading lines\<close>

definition hash_like :: "uchar \<Rightarrow> bool" where
  "hash_like c \<longleftrightarrow> c = 35 \<or> c = fw_hash"

lemma in_class_hash [simp]: "in_class [Ch 35, Ch fw_hash] c = hash_like c"
  by (auto simp: in_class_def hash_like_def)

text \<open>A greedy star over a class first takes the whole run of characters of the class.\<close>

lemma star_class_run:
  assumes "\<forall>c\<in>set hs. in_class cs c" "nxt = [] \<or> \<not> in_class cs (hd nxt)"
  shows "\<exists>xs. ms ic (Star (In cs)) (p, hs @ nxt, g)
               = ((if hs = [] then p else Some (last hs)), nxt, g) # xs"
  using assms(1)
proof (induction hs arbitrary: p)
  case Nil
  from assms(2) have "step1 (in_class cs) (p, nxt, g) = []" by (cases nxt) auto
  then show ?case by (simp add: ms.simps(9))
next
  case (Cons h hs)
  then have h: "in_class cs h" and hs: "\<forall>c\<in>set hs. in_class cs c" by auto
  from Cons.IH[OF hs, of "Some h"] obtain xs where
    xs: "ms ic (Star (In cs)) (Some h, hs @ nxt, g)
           = ((if hs = [] then Some h else Some (last hs)), nxt, g) # xs" by blast
  show ?case
    using h xs by (subst ms.simps(9)) auto
qed

text \<open>A lazy star over \<open>.\<close> stops after 0, 1, 2, ... characters of the line.\<close>

fun lazy_states :: "uchar option \<Rightarrow> ustr \<Rightarrow> ustr \<Rightarrow> caps \<Rightarrow> mstate list" where
  "lazy_states p [] rst g = [(p, rst, g)]"
| "lazy_states p (c # r) rst g = (p, c # r @ rst, g) # lazy_states (Some c) r rst g"

lemma lazy_dot_states:
  assumes "rst = [] \<or> hd rst = nl"
  shows "nl \<notin> set r \<Longrightarrow> ms ic (StarLazy Dot) (p, r @ rst, g) = lazy_states p r rst g"
proof (induction r arbitrary: p)
  case Nil
  from assms have "step1 (\<lambda>d. d \<noteq> nl) (p, rst, g) = []" by (cases rst) auto
  then show ?case by (simp add: ms.simps(10))
next
  case (Cons c r)
  then show ?case by (subst ms.simps(10)) auto
qed

lemma lazy_states_eol:
  assumes "rst = [] \<or> hd rst = nl"
  shows "nl \<notin> set r \<Longrightarrow>
    concat (map (ms ic (Seq Eol Eps))
             (map (\<lambda>(p', s', g'). (p', s', (n, take (length (pre @ r @ rst) - length s') (pre @ r @ rst)) # g'))
                (lazy_states p r rst g)))
    = [((if r = [] then p else Some (last r)), rst, (n, pre @ r) # g)]"
proof (induction r arbitrary: p pre)
  case Nil
  from assms show ?case by (cases rst) auto
next
  case (Cons c r)
  from Cons.prems have "nl \<notin> set r" "c \<noteq> nl" by auto
  with Cons.IH[of "pre @ [c]" "Some c"] show ?case by simp
qed

lemma heading_match_first:
  assumes p: "p = None \<or> p = Some nl"
    and hs: "hs \<noteq> []" "\<forall>c\<in>set hs. hash_like c"
    and r: "nl \<notin> set r" "r = [] \<or> \<not> hash_like (hd r)"
    and rst: "rst = [] \<or> hd rst = nl"
  shows "\<exists>xs. ms False heading_pattern (p, hs @ r @ rst, [])
               = (Some (last (hs @ r)), rst, [(2, r), (1, hs)]) # xs"
proof -
  obtain h hs' where h: "hs = h # hs'" using hs(1) by (cases hs) auto
  have nxt: "r @ rst = [] \<or> \<not> in_class [Ch 35, Ch fw_hash] (hd (r @ rst))"
    using r(2) rst by (cases r) (auto simp: hash_like_def)
  from star_class_run[of hs' "[Ch 35, Ch fw_hash]" "r @ rst" False "Some h" "[]"] hs(2) h nxt
  obtain xs where xs: "ms False (Star (In [Ch 35, Ch fw_hash])) (Some h, hs' @ r @ rst, [])
      = (Some (last hs), r @ rst, []) # xs"
    by auto
  have two: "concat (map (ms False (Seq Eol Eps))
               (ms False (Grp 2 (StarLazy Dot)) (Some (last hs), r @ rst, [(1, hs)])))
             = [(Some (last (hs @ r)), rst, [(2, r), (1, hs)])]"
    using lazy_states_eol[OF rst r(1), of False 2 "[]" "Some (last hs)" "[(1, hs)]"] hs(1)
    by (simp add: lazy_dot_states[OF rst r(1)])
  show ?thesis
    using p h hs(2) xs two
    by (auto simp: heading_pattern_def Plus_def)
qed

text \<open>The substitution of \<open>fix_headings\<close>, started in the middle of a text.\<close>

definition heading_from :: "uchar option \<Rightarrow> ustr \<Rightarrow> ustr" where
  "heading_from p s =
     (case re_scan False heading_pattern p s of (ch, rst) \<Rightarrow> sub_chunks fix_heading_format ch @ rst)"

lemma fix_headings_from: "fix_headings s = heading_from None s"
  by (simp add: fix_headings_def re_sub_def heading_from_def)

lemma shift_chunk_out:
  "(case shift_chunk c x of (ch, rst) \<Rightarrow> sub_chunks f ch @ rst)
     = c # (case x of (ch, rst) \<Rightarrow> sub_chunks f ch @ rst)"
  by (cases "(c, x)" rule: shift_chunk.cases) auto

lemma re_scan_no_match_here:
  assumes "ms ic r (p, c # t, []) = []"
  shows "re_scan ic r p (c # t) = shift_chunk c (re_scan ic r (Some c) t)"
proof (cases "re_search ic r (Some c) t")
  case None
  with assms show ?thesis
    by (subst re_scan.simps, subst (2) re_scan.simps) simp
next
  case (Some x)
  obtain b m g p' a where x: "x = (b, m, g, p', a)" by (cases x)
  with Some assms show ?thesis
    by (subst re_scan.simps, subst (2) re_scan.simps) (simp split: prod.splits)
qed

lemma heading_from_skip:
  "ms False heading_pattern (p, c # t, []) = [] \<Longrightarrow> heading_from p (c # t) = c # heading_from (Some c) t"
  by (simp add: heading_from_def re_scan_no_match_here shift_chunk_out)

lemma heading_from_Nil [simp]: "heading_from p [] = []"
  by (simp add: heading_from_def re_scan.simps heading_pattern_def Plus_def)

lemma heading_no_match_inside:
  "c \<noteq> nl \<Longrightarrow> ms False heading_pattern (Some c, s, []) = []"
  by (simp add: heading_pattern_def)

lemma heading_no_match_plain:
  "s = [] \<or> \<not> hash_like (hd s) \<Longrightarrow> ms False heading_pattern (p, s, []) = []"
  by (cases s) (auto simp: heading_pattern_def Plus_def)

text \<open>After the first character of a line nothing matches until the line ends.\<close>

lemma heading_from_inside:
  assumes "rst = [] \<or> hd rst = nl"
  shows "c \<noteq> nl \<Longrightarrow> nl \<notin> set l \<Longrightarrow>
    heading_from (Some c) (l @ rst)
      = l @ (case rst of [] \<Rightarrow> [] | d # t \<Rightarrow> nl # heading_from (Some nl) t)"
proof (induction l arbitrary: c)
  case Nil
  show ?case
  proof (cases rst)
    case Nil
    then show ?thesis by simp
  next
    case (Cons d t)
    with assms have "d = nl" by simp
    with Cons Nil.prems show ?thesis
      by (simp add: heading_from_skip heading_no_match_inside)
  qed
next
  case (Cons x l)
  then show ?case
    by (simp add: heading_from_skip heading_no_match_inside)
qed

text \<open>
  What the specification says of one line: a line that begins with one or more hash-like
  markers is rewritten with as many ASCII \<open>#\<close>, and one space is inserted before the
  heading text when the text does not begin with one; every other line is kept.
\<close>

definition repair_heading_line :: "ustr \<Rightarrow> ustr" where
  "repair_heading_line l =
     (if takeWhile hash_like l = [] then l
      else replicate (length (takeWhile hash_like l)) 35 @
           (if startswith (dropWhile hash_like l) (asc '' '') then dropWhile hash_like l
            else asc '' '' @ dropWhile hash_like l))"

lemma heading_from_line:
  assumes p: "p = None \<or> p = Some nl" and l: "nl \<notin> set l" and rst: "rst = [] \<or> hd rst = nl"
  shows "heading_from p (l @ rst)
           = repair_heading_line l @ (case rst of [] \<Rightarrow> [] | d # t \<Rightarrow> nl # heading_from (Some nl) t)"
proof (cases "takeWhile hash_like l = []")
  case True
  then have plain: "l = [] \<or> \<not> hash_like (hd l)" by (cases l) (auto split: if_splits)
  show ?thesis
  proof (cases l)
    case Nil
    show ?thesis
    proof (cases rst)
      case Nil
      with \<open>l = []\<close> show ?thesis by (simp add: repair_heading_line_def)
    next
      case (Cons d t)
      with rst have d: "d = nl" by simp
      have "ms False heading_pattern (p, nl # t, []) = []"
        by (intro heading_no_match_plain) (simp add: hash_like_def)
      with Cons d \<open>l = []\<close> show ?thesis
        by (simp add: heading_from_skip repair_heading_line_def)
    qed
  next
    case (Cons c l')
    with plain have c: "\<not> hash_like c" by simp
    from l Cons have cn: "c \<noteq> nl" "nl \<notin> set l'" by auto
    have "ms False heading_pattern (p, c # l' @ rst, []) = []"
      using c by (intro heading_no_match_plain) simp
    then have "heading_from p (c # l' @ rst) = c # heading_from (Some c) (l' @ rst)"
      by (rule heading_from_skip)
    with heading_from_inside[OF rst cn] True Cons show ?thesis
      by (simp add: repair_heading_line_def)
  qed
next
  case False
  define hs where "hs = takeWhile hash_like l"
  define r where "r = dropWhile hash_like l"
  have lhr: "l = hs @ r" by (simp add: hs_def r_def)
  have hs: "hs \<noteq> []" "\<forall>c\<in>set hs. hash_like c"
    using False by (auto simp: hs_def dest: set_takeWhileD)
  have r1: "nl \<notin> set r"
    using l unfolding r_def by (auto dest: set_dropWhileD)
  have r2: "r = [] \<or> \<not> hash_like (hd r)"
    unfolding r_def using hd_dropWhile[of hash_like l] by blast
  note r = r1 r2
  from heading_match_first[OF p hs r rst] obtain xs where
    xs: "ms False heading_pattern (p, hs @ r @ rst, [])
           = (Some (last (hs @ r)), rst, [(2, r), (1, hs)]) # xs" by blast
  obtain h hs' where h: "hs = h # hs'" using hs(1) by (cases hs) auto
  have search: "re_search False heading_pattern p (hs @ r @ rst)
                  = Some ([], hs @ r, [(2, r), (1, hs)], Some (last (hs @ r)), rst)"
    using xs unfolding h by simp
  have "last (hs @ r) \<in> set hs \<union> set r"
    using hs(1) last_in_set[of "hs @ r"] by simp
  then have lastc: "last (hs @ r) \<noteq> nl"
    using hs(2) r(1) by (auto simp: hash_like_def)
  have cont: "heading_from (Some (last (hs @ r))) rst
                = (case rst of [] \<Rightarrow> [] | d # t \<Rightarrow> nl # heading_from (Some nl) t)"
    using heading_from_inside[OF rst lastc, of "[]"] by simp
  have ne: "hs @ r \<noteq> []" using hs(1) by simp
  have "re_scan False heading_pattern p (hs @ r @ rst)
          = (case re_scan False heading_pattern (Some (last (hs @ r))) rst of
               (ch, rs) \<Rightarrow> (([], hs @ r, [(2, r), (1, hs)]) # ch, rs))"
    by (subst re_scan.simps) (simp only: search option.case prod.case ne if_False Let_def)
  then have "heading_from p (hs @ r @ rst)
          = fix_heading_format (hs @ r, [(2, r), (1, hs)]) @ heading_from (Some (last (hs @ r))) rst"
    unfolding heading_from_def by (simp split: prod.splits)
  moreover have "fix_heading_format (hs @ r, [(2, r), (1, hs)]) = repair_heading_line l"
    using False by (simp add: fix_heading_format_def group_def repair_heading_line_def hs_def r_def)
  ultimately show ?thesis using cont lhr by simp
qed

lemma heading_from_start: "heading_from (Some nl) s = heading_from None s"
proof -
  have "ms False heading_pattern (Some nl, s, []) = ms False heading_pattern (None, s, [])"
    by (cases s) (simp_all add: heading_pattern_def Plus_def)
  then have "re_search False heading_pattern (Some nl) s = re_search False heading_pattern None s"
    by (cases s) simp_all
  then show ?thesis
    unfolding heading_from_def by (subst re_scan.simps, subst (2) re_scan.simps) simp
qed

section \<open>Texts without protected spans\<close>

subsection \<open>The registry of a unit without protected spans\<close>







subsection \<open>The punctuation repair\<close>

text \<open>
  What the repair does, character by character: the full-width exclamation mark before an
  opening bracket and the two full-width parentheses become their ASCII forms.
\<close>

definition ascii_paren :: "uchar \<Rightarrow> uchar" where
  "ascii_paren c = (if c = fw_lparen then 40 else if c = fw_rparen then 41 else c)"

fun ascii_punctuation :: "ustr \<Rightarrow> ustr" where
  "ascii_punctuation (x # y # t) =
     (if x = fw_excl \<and> y = 91 then 33 # 91 # ascii_punctuation t
      else ascii_paren x # ascii_punctuation (y # t))"
| "ascii_punctuation [x] = [ascii_paren x]"
| "ascii_punctuation [] = []"

lemma ascii_paren_simps [simp]: "ascii_paren 33 = 33" "ascii_paren 91 = 91"
  by (simp_all add: ascii_paren_def)







lemma ascii_punctuation_Nil_iff [simp]: "ascii_punctuation s = [] \<longleftrightarrow> s = []"
  by (induction s rule: ascii_punctuation.induct) auto








subsection \<open>Protecting a text without markup\<close>







section \<open>Properties\<close>

text \<open>
  C8. On the in-memory cache, \<open>set(k, v)\<close> followed by \<open>get(k)\<close> returns \<open>v\<close>, and after
  \<open>clear()\<close> every \<open>get(k)\<close> returns the absent default \<open>None\<close>, whether or not the file
  could be written.
\<close>

theorem cache_round_trip:
  "cache_get (cache_set ok k v c) k = Some v \<and> cache_get (cache_clear ok' c) k' = None"
  by (simp add: cache_get_def cache_set_def cache_clear_def save_cache_def)


text \<open>
  C6. With equal source and target language the service is skipped, and so is
  \<open>restore_special_elements\<close>: only \<open>restore_formulas\<close> runs on the unit. On the document
  \<open>See `x` now\<close> the inline code span is protected and never restored, although the branch
  taken for different languages restores it when the service returns its input unchanged.
\<close>

theorem same_language_leaves_placeholder:
  "map_option fst (translate_markdown same_language empty_cache (asc ''See `x` now''))
     = Some (asc ''See __INLINE_CODE_0__ now'')
   \<and> map_option fst (translate_markdown identity_service empty_cache (asc ''See `x` now''))
     = Some (asc ''See `x` now'')"
  by code_simp

text \<open>
  C3. A unit with the three untitled images \<open>a.png\<close>, \<open>b.png\<close>, \<open>c.png\<close> whose placeholders
  come back as \<open>imagelink0\<close>, \<open>imagelink1\<close>, \<open>imagelink2\<close>: every image registers the key
  \<open>imagelink\<close> without a number (the second last field of the placeholder split at
  underscores is empty), the last image wins, and all three tokens become \<open>![](c.png)\<close>
  followed by their digit, in \<open>restore_special_elements\<close> and in the whole pipeline.
\<close>

theorem bare_image_tokens_all_become_last_image:
  "restore_special_elements (asc ''imagelink0 imagelink1 imagelink2'')
       (snd (protect_special_elements three_images))
     = Some (asc ''![](c.png)0 ![](c.png)1 ![](c.png)2'')
   \<and> map_option fst (translate_markdown bare_service empty_cache three_images)
     = Some (asc ''![](c.png)0 ![](c.png)1 ![](c.png)2'')"
  by code_simp




text \<open>
  C2, as stated, fails: the bare token \<open>block_math_0\<close> is none of the variants that
  \<open>restore_formulas\<close> builds for \<open>__BLOCK_MATH_0__\<close> and matches none of its patterns, which
  all keep an underscore or a brace at both ends. It is left in the text, also by
  \<open>restore_special_elements\<close>.
\<close>

theorem bare_block_math_token_is_left:
  "restore_formulas (asc ''block_math_0'') (snd (protect_special_elements (asc ''$$x$$'')))
     = asc ''block_math_0''
   \<and> restore_special_elements (asc ''block_math_0'') (snd (protect_special_elements (asc ''$$x$$'')))
     = Some (asc ''block_math_0'')"
  by code_simp

text \<open>
  C2, amended. When the block-math placeholder \<open>__BLOCK_MATH_0__\<close> comes back lower-cased
  with its underscores kept, collapsed to single underscores, or collapsed and padded with
  spaces, \<open>restore_formulas\<close> replaces it by the normalised block formula (the formula
  itself when \<open>fix_formula_format\<close> leaves it unchanged). The surrounding text and the
  normalised formula are assumed free of underscores.
\<close>

theorem lower_cased_block_math_is_restored:
  assumes "v \<in> {asc ''__block_math_0__'', asc ''_block_math_0_'', asc ''_ block_math_0 _''}"
    and "95 \<notin> set a" "95 \<notin> set b" "95 \<notin> set (fix_formula_format f)"
  shows "restore_formulas (a @ v @ b)
           \<lparr>elems = [(asc ''__BLOCK_MATH_0__'', f)], image_paths = ip\<rparr>
         = a @ fix_formula_format f @ b"
proof -
  from assms(1) obtain i where i: "i < 4" "v = block_math_0_variants ! i"
  proof -
    have "v = block_math_0_variants ! 1 \<or> v = block_math_0_variants ! 2
            \<or> v = block_math_0_variants ! 3"
      using assms(1) by (auto simp: block_math_0_variants_def)
    then show ?thesis using that[of 1] that[of 2] that[of 3] by auto
  qed
  show ?thesis
    unfolding i(2) using i(1) assms(2-4) by (intro restore_math_0) simp_all
qed

theorem lower_cased_block_math_is_restored_witness:
  "asc ''__block_math_0__'' \<in> {asc ''__block_math_0__'', asc ''_block_math_0_'', asc ''_ block_math_0 _''}
   \<and> 95 \<notin> set (asc ''A '') \<and> 95 \<notin> set (asc '' B'')
   \<and> 95 \<notin> set (fix_formula_format (asc ''$$x$$''))
   \<and> restore_formulas (asc ''A __block_math_0__ B'')
         \<lparr>elems = [(asc ''__BLOCK_MATH_0__'', asc ''$$x$$'')], image_paths = None\<rparr>
       = asc ''A $$x$$ B''"
proof -
  have fx: "fix_formula_format (asc ''$$x$$'') = asc ''$$x$$''" by code_simp
  show ?thesis
    using lower_cased_block_math_is_restored
            [of "asc ''__block_math_0__''" "asc ''A ''" "asc '' B''" "asc ''$$x$$''" None] fx
    by simp
qed

text \<open>
  C4, as stated, fails: each pass of \<open>fix_formula_format\<close> removes one space before a dollar
  sign, so the inline formula \<open>$x  $\<close> needs two passes.
\<close>

theorem fix_formula_format_not_idempotent:
  "fix_formula_format (asc ''$x  $'') = asc ''$x $''
   \<and> fix_formula_format (fix_formula_format (asc ''$x  $'')) = asc ''$x$''"
  by code_simp

text \<open>
  C4, amended. On a formula without an opening brace and without two consecutive spaces,
  \<open>fix_formula_format\<close> is idempotent.
\<close>

theorem fix_formula_format_idempotent:
  assumes "123 \<notin> set x" "\<not> contains (asc ''  '') x"
  shows "fix_formula_format (fix_formula_format x) = fix_formula_format x"
proof -
  from assms(2) have "\<not> adj 32 32 x" by (simp add: contains_adj)
  then show ?thesis
    using assms(1) by (simp add: fix_formula_format_brace_free trim_dollars_brace trim_dollars_idem)
qed

theorem fix_formula_format_idempotent_witness:
  "123 \<notin> set (asc ''$ x $'') \<and> \<not> contains (asc ''  '') (asc ''$ x $'')
   \<and> fix_formula_format (asc ''$ x $'') = asc ''$x$''
   \<and> fix_formula_format (fix_formula_format (asc ''$ x $'')) = fix_formula_format (asc ''$ x $'')"
proof -
  have fx: "fix_formula_format (asc ''$ x $'') = asc ''$x$''" by code_simp
  have nc: "\<not> contains (asc ''  '') (asc ''$ x $'')" by code_simp
  show ?thesis
    using fix_formula_format_idempotent[of "asc ''$ x $''"] fx nc by simp
qed


text \<open>
  C7. Heading repair works line by line: on a text made of lines joined by newlines,
  \<open>fix_headings\<close> (the substitution that \<open>fix_markdown_format\<close> and
  \<open>restore_special_elements\<close> both apply) rewrites every line that begins with ASCII or
  full-width hashes to as many ASCII hashes, followed by one space when the text after the
  hashes does not begin with a space, and keeps all other lines.
\<close>

theorem heading_repair_line_by_line:
  assumes "\<forall>l\<in>set ls. nl \<notin> set l"
  shows "fix_headings (join [nl] ls) = join [nl] (map repair_heading_line ls)"
  using assms
proof (induction ls rule: induct_list012)
  case 1
  then show ?case by (simp add: fix_headings_from)
next
  case (2 x)
  with heading_from_line[of None x "[]"] show ?case by (simp add: fix_headings_from)
next
  case (3 x y ys)
  then have ih: "fix_headings (join [nl] (y # ys)) = join [nl] (map repair_heading_line (y # ys))"
    by simp
  from 3(3) have x: "nl \<notin> set x" by simp
  have "heading_from None (x @ nl # join [nl] (y # ys))
          = repair_heading_line x @ nl # heading_from (Some nl) (join [nl] (y # ys))"
    using heading_from_line[of None x "nl # join [nl] (y # ys)"] x by simp
  with ih show ?case by (simp add: fix_headings_from heading_from_start)
qed

theorem heading_repair_line_by_line_witness:
  "nl \<notin> set (fw_hash # fw_hash # asc ''Title'') \<and> nl \<notin> set (asc ''text'')
   \<and> nl \<notin> set (asc ''# ok'')
   \<and> fix_headings (fw_hash # fw_hash # asc ''Title'') = asc ''## Title''
   \<and> fix_headings (join [nl] [fw_hash # fw_hash # asc ''Title'', asc ''text'', asc ''# ok''])
       = join [nl] [asc ''## Title'', asc ''text'', asc ''# ok'']"
  using heading_repair_line_by_line[of "[fw_hash # fw_hash # asc ''Title'']"]
        heading_repair_line_by_line[of "[fw_hash # fw_hash # asc ''Title'', asc ''text'', asc ''# ok'']"]
  by (simp add: repair_heading_line_def hash_like_def startswith_def)







end
